theory Spec2Isabelle
  imports Main "HOL-Library.Word" "HOL-Library.DAList" "HOL-Library.Multiset"
begin

unbundle bit_operations_syntax

section \<open>Peer identifiers and the XOR metric\<close>

text \<open>
  The decentralized-network component keeps every peer id as a JavaScript string and
  turns it into a number with \<^verbatim>\<open>BigInt(`0x${id}`)\<close>. That conversion throws a
  SyntaxError unless the text after \<^verbatim>\<open>0x\<close> is one or more hexadecimal digits, of
  either letter case, that white space may follow. BigInt values are unbounded, so they
  are integers here. A character of the model is a UTF-16 code unit below 256; the white
  space of the language in that range is tab, line feed, vertical tab, form feed,
  carriage return, space and no-break space.
\<close>

datatype error = SyntaxError | DigestError

type_synonym byte = "8 word"

definition hexDigitValue :: "char \<Rightarrow> int option" where
  "hexDigitValue c = map_of
     [(CHR ''0'', 0), (CHR ''1'', 1), (CHR ''2'', 2), (CHR ''3'', 3), (CHR ''4'', 4),
      (CHR ''5'', 5), (CHR ''6'', 6), (CHR ''7'', 7), (CHR ''8'', 8), (CHR ''9'', 9),
      (CHR ''a'', 10), (CHR ''b'', 11), (CHR ''c'', 12), (CHR ''d'', 13), (CHR ''e'', 14),
      (CHR ''f'', 15),
      (CHR ''A'', 10), (CHR ''B'', 11), (CHR ''C'', 12), (CHR ''D'', 13), (CHR ''E'', 14),
      (CHR ''F'', 15)] c"

fun parseHexDigits :: "int \<Rightarrow> string \<Rightarrow> int option" where
  "parseHexDigits acc [] = Some acc"
| "parseHexDigits acc (c # cs) =
     (case hexDigitValue c of
        None \<Rightarrow> None
      | Some d \<Rightarrow> parseHexDigits (acc * 16 + d) cs)"

definition strWhiteSpaceChar :: "char \<Rightarrow> bool" where
  "strWhiteSpaceChar c =
     (c \<in> set [CHR 0x09, CHR 0x0A, CHR 0x0B, CHR 0x0C, CHR 0x0D, CHR 0x20, CHR 0xA0])"

definition dropTrailingWhiteSpace :: "string \<Rightarrow> string" where
  "dropTrailingWhiteSpace s = rev (dropWhile strWhiteSpaceChar (rev s))"

definition BigInt0x :: "string \<Rightarrow> error + int" where
  "BigInt0x s =
     (let digits = dropTrailingWhiteSpace s
      in if digits = [] then Inl SyntaxError
         else case parseHexDigits 0 digits of None \<Rightarrow> Inl SyntaxError | Some n \<Rightarrow> Inr n)"

text \<open>\<^verbatim>\<open>calculateDistance\<close>: both ids are parsed (the first one first), then XORed.\<close>

definition calculateDistance :: "string \<Rightarrow> string \<Rightarrow> error + int" where
  "calculateDistance id1 id2 =
     (case BigInt0x id1 of
        Inl e \<Rightarrow> Inl e
      | Inr n1 \<Rightarrow> (case BigInt0x id2 of Inl e \<Rightarrow> Inl e | Inr n2 \<Rightarrow> Inr (n1 XOR n2)))"

text \<open>The shape of the ids the program creates: twelve lowercase hexadecimal digits.\<close>

definition lowerHexDigit :: "char \<Rightarrow> bool" where
  "lowerHexDigit c = (c \<in> set ''0123456789abcdef'')"

definition peerIdFormat :: "string \<Rightarrow> bool" where
  "peerIdFormat s = (length s = 12 \<and> list_all lowerHexDigit s)"

text \<open>Texts of hexadecimal digits only, which \<^const>\<open>BigInt0x\<close> accepts.\<close>

definition hexString :: "string \<Rightarrow> bool" where
  "hexString s = (s \<noteq> [] \<and> list_all (\<lambda>c. hexDigitValue c \<noteq> None) s)"

section \<open>Identity generation\<close>

text \<open>
  \<^verbatim>\<open>generatePeerId\<close> exports the public key, digests it with SHA-256 and renders every
  digest byte with \<^verbatim>\<open>b.toString(16).padStart(2, "0")\<close>; the joined text is cut to its
  first twelve characters. The export and SHA-256 belong to the browser, not to the
  repository: a key is represented by the bytes its raw export yields, and the digest is
  a parameter of the model, which answers the digest bytes or, when the browser rejects
  the request, \<^const>\<open>DigestError\<close>.
\<close>

definition hexDigitChar :: "nat \<Rightarrow> char" where
  "hexDigitChar n = ''0123456789abcdef'' ! n"

function toString16 :: "nat \<Rightarrow> string" where
  "toString16 n =
     (if n < 16 then [hexDigitChar n]
      else toString16 (n div 16) @ [hexDigitChar (n mod 16)])"
  by pat_completeness auto
termination
  by (relation "measure (\<lambda>n. n)") auto

declare toString16.simps [simp del]

definition padStart :: "nat \<Rightarrow> char \<Rightarrow> string \<Rightarrow> string" where
  "padStart targetLength c s = replicate (targetLength - length s) c @ s"

definition byteHex :: "byte \<Rightarrow> string" where
  "byteHex b = padStart 2 CHR ''0'' (toString16 (unat b))"

type_synonym digestFn = "byte list \<Rightarrow> error + byte list"

definition generatePeerId :: "digestFn \<Rightarrow> byte list \<Rightarrow> error + string" where
  "generatePeerId digest publicKey =
     (let publicKeyBuffer = publicKey
      in case digest publicKeyBuffer of
           Inl e \<Rightarrow> Inl e
         | Inr hash \<Rightarrow> Inr (take 12 (concat (map byteHex hash))))"

section \<open>Peers, routing tables and the network state\<close>

text \<open>
  A routing table is a JavaScript \<^verbatim>\<open>Map\<close>: keys are unique, \<^verbatim>\<open>set\<close> replaces the value
  of a key that is present (keeping its place) and appends a new key at the end,
  \<^verbatim>\<open>delete\<close> removes the key. Association lists with distinct keys behave so.
\<close>

record entry =
  distance :: int
  entryLastSeen :: int

type_synonym routing = "(string, entry) alist"

definition Map_set :: "string \<Rightarrow> entry \<Rightarrow> routing \<Rightarrow> routing" where
  "Map_set k v m = DAList.update k v m"

definition Map_delete :: "string \<Rightarrow> routing \<Rightarrow> routing" where
  "Map_delete k m = DAList.delete k m"

definition Map_clear :: "routing \<Rightarrow> routing" where
  "Map_clear m = DAList.empty"

definition Map_entries :: "routing \<Rightarrow> (string \<times> entry) list" where
  "Map_entries m = DAList.impl_of m"

definition Map_keys :: "routing \<Rightarrow> string list" where
  "Map_keys m = map fst (Map_entries m)"

definition Map_size :: "routing \<Rightarrow> nat" where
  "Map_size m = length (Map_entries m)"

datatype status = Discovering | Connected

text \<open>
  The pixel position of a peer (\<^verbatim>\<open>x\<close>, \<^verbatim>\<open>y\<close>) is floating-point data for the drawing
  only and is left out of the record.
\<close>

record peer =
  peer_id :: string
  signingKeys :: "byte list"
  routingTable :: routing
  lastSeen :: int
  status :: status

text \<open>
  The component's state: the \<^verbatim>\<open>peers\<close> and \<^verbatim>\<open>started\<close> refs, the \<^verbatim>\<open>networkLatency\<close>
  and \<^verbatim>\<open>discoveryLogs\<close> React states, and the ids of the discovery rounds whose
  \<^verbatim>\<open>simulateLatency\<close> timer has not fired yet.
\<close>

record state =
  peers :: "peer list"
  started :: bool
  networkLatency :: int
  discoveryLogs :: "string list"
  pending :: "string list"

definition initState :: state where
  "initState = \<lparr>peers = [], started = False, networkLatency = 200, discoveryLogs = [],
     pending = []\<rparr>"

text \<open>
  \<^verbatim>\<open>createPeer\<close>: the id is parsed once for the position, so a text that BigInt rejects
  aborts the creation, as a rejected digest does. The clock reading is the parameter
  \<open>now\<close>.
\<close>

definition createPeer :: "digestFn \<Rightarrow> byte list \<Rightarrow> int \<Rightarrow> error + peer" where
  "createPeer digest keys now =
     (case generatePeerId digest keys of
        Inl e \<Rightarrow> Inl e
      | Inr i \<Rightarrow>
          (case BigInt0x i of
             Inl e \<Rightarrow> Inl e
           | Inr idBytes \<Rightarrow>
               Inr \<lparr>peer_id = i, signingKeys = keys, routingTable = DAList.empty,
                    lastSeen = now, status = Discovering\<rparr>))"

section \<open>Closest peers\<close>

text \<open>
  The comparator of \<^verbatim>\<open>findClosestPeers\<close> answers \<open>-1\<close> or \<open>1\<close>, never \<open>0\<close>. The sort is
  an insertion sort that takes the elements from left to right and puts each one before
  the first element it compares smaller than, so entries at equal distance keep their
  order (for such entries the comparator is inconsistent and the language leaves the
  order to the engine; for pairwise different distances every sort gives the ascending
  order). A list of one element is sorted without any comparison. The parameter
  \<^verbatim>\<open>count\<close> is written \<open>cnt\<close>.
\<close>

definition compareFn :: "string \<Rightarrow> peer \<Rightarrow> peer \<Rightarrow> error + int" where
  "compareFn targetId a b =
     (case calculateDistance (peer_id a) targetId of
        Inl e \<Rightarrow> Inl e
      | Inr distA \<Rightarrow>
          (case calculateDistance (peer_id b) targetId of
             Inl e \<Rightarrow> Inl e
           | Inr distB \<Rightarrow> Inr (if distA < distB then - 1 else 1)))"

fun insertBy :: "('a \<Rightarrow> 'a \<Rightarrow> error + int) \<Rightarrow> 'a \<Rightarrow> 'a list \<Rightarrow> error + 'a list" where
  "insertBy cmp x [] = Inr [x]"
| "insertBy cmp x (y # ys) =
     (case cmp x y of
        Inl e \<Rightarrow> Inl e
      | Inr c \<Rightarrow>
          if c < 0 then Inr (x # y # ys)
          else (case insertBy cmp x ys of Inl e \<Rightarrow> Inl e | Inr zs \<Rightarrow> Inr (y # zs)))"

fun sortLoop :: "('a \<Rightarrow> 'a \<Rightarrow> error + int) \<Rightarrow> 'a list \<Rightarrow> 'a list \<Rightarrow> error + 'a list" where
  "sortLoop cmp acc [] = Inr acc"
| "sortLoop cmp acc (x # xs) =
     (case insertBy cmp x acc of Inl e \<Rightarrow> Inl e | Inr acc' \<Rightarrow> sortLoop cmp acc' xs)"

definition sortBy :: "('a \<Rightarrow> 'a \<Rightarrow> error + int) \<Rightarrow> 'a list \<Rightarrow> error + 'a list" where
  "sortBy cmp xs = sortLoop cmp [] xs"

definition findClosestPeers :: "string \<Rightarrow> peer list \<Rightarrow> nat \<Rightarrow> error + peer list" where
  "findClosestPeers targetId allPeers cnt =
     (case sortBy (compareFn targetId) (filter (\<lambda>p. peer_id p \<noteq> targetId) allPeers) of
        Inl e \<Rightarrow> Inl e
      | Inr ranked \<Rightarrow> Inr (take cnt ranked))"

section \<open>One discovery round\<close>

function decimal :: "nat \<Rightarrow> string" where
  "decimal n =
     (if n < 10 then [''0123456789'' ! n]
      else decimal (n div 10) @ [''0123456789'' ! (n mod 10)])"
  by pat_completeness auto
termination
  by (relation "measure (\<lambda>n. n)") auto

declare decimal.simps [simp del]

definition discoveringMsg :: "string \<Rightarrow> string" where
  "discoveringMsg pid = ''Peer '' @ take 6 pid @ '' discovering closest peers...''"

definition clearedMsg :: "string \<Rightarrow> string" where
  "clearedMsg pid = ''Peer '' @ take 6 pid @ '' cleared routing table - no peers found''"

definition removedMsg :: "string \<Rightarrow> string \<Rightarrow> string" where
  "removedMsg pid i = ''Peer '' @ take 6 pid @ '' removed '' @ take 6 i @ '' from routing table''"

definition foundMsg :: "string \<Rightarrow> nat \<Rightarrow> string" where
  "foundMsg pid n = ''Peer '' @ take 6 pid @ '' found '' @ decimal n @ '' close peers''"

definition joinedMsg :: "string \<Rightarrow> string" where
  "joinedMsg pid = ''Peer '' @ take 6 pid @ '' joined the network''"

text \<open>
  \<^verbatim>\<open>currentPeerIds.forEach\<close>: every key of the snapshot that is not among the new ids is
  deleted from the table and reported in the log.
\<close>

fun pruneTable ::
  "string \<Rightarrow> string list \<Rightarrow> string list \<Rightarrow> routing \<Rightarrow> string list \<Rightarrow> routing \<times> string list"
where
  "pruneTable pid newPeerIds [] rt logs = (rt, logs)"
| "pruneTable pid newPeerIds (i # ids) rt logs =
     (if i \<notin> set newPeerIds
      then pruneTable pid newPeerIds ids (Map_delete i rt) (logs @ [removedMsg pid i])
      else pruneTable pid newPeerIds ids rt logs)"

text \<open>\<^verbatim>\<open>closestPeers.forEach\<close>: every close peer is written with its distance to the owner.\<close>

fun upsertClosest :: "string \<Rightarrow> int \<Rightarrow> peer list \<Rightarrow> routing \<Rightarrow> error + routing" where
  "upsertClosest pid now [] rt = Inr rt"
| "upsertClosest pid now (close # rest) rt =
     (case calculateDistance pid (peer_id close) of
        Inl e \<Rightarrow> Inl e
      | Inr d \<Rightarrow>
          upsertClosest pid now rest
            (Map_set (peer_id close) \<lparr>distance = d, entryLastSeen = now\<rparr> rt))"

text \<open>
  The callback of \<^verbatim>\<open>peers.current.map\<close> for one element \<open>p\<close>. The status is set after
  the \<^verbatim>\<open>if\<close>/\<^verbatim>\<open>else\<close>, on both branches.
\<close>

definition updatePeer ::
  "string \<Rightarrow> int \<Rightarrow> peer list \<Rightarrow> peer \<Rightarrow> string list \<Rightarrow> error + peer \<times> string list"
where
  "updatePeer pid now closestPeers p logs =
     (if peer_id p = pid then
        let currentPeerIds = Map_keys (routingTable p) in
        if length closestPeers = 0 then
          Inr (p\<lparr>routingTable := Map_clear (routingTable p), status := Connected\<rparr>,
               logs @ [clearedMsg pid])
        else
          let newPeerIds = map peer_id closestPeers;
              (rt1, logs1) = pruneTable pid newPeerIds currentPeerIds (routingTable p) logs
          in case upsertClosest pid now closestPeers rt1 of
               Inl e \<Rightarrow> Inl e
             | Inr rt2 \<Rightarrow> Inr (p\<lparr>routingTable := rt2, status := Connected\<rparr>, logs1)
      else Inr (p, logs))"

fun mapPeers ::
  "string \<Rightarrow> int \<Rightarrow> peer list \<Rightarrow> peer list \<Rightarrow> string list \<Rightarrow> error + peer list \<times> string list"
where
  "mapPeers pid now closestPeers [] logs = Inr ([], logs)"
| "mapPeers pid now closestPeers (p # ps) logs =
     (case updatePeer pid now closestPeers p logs of
        Inl e \<Rightarrow> Inl e
      | Inr (p', logs') \<Rightarrow>
          (case mapPeers pid now closestPeers ps logs' of
             Inl e \<Rightarrow> Inl e
           | Inr (ps', logs'') \<Rightarrow> Inr (p' # ps', logs'')))"

text \<open>
  The closure \<^verbatim>\<open>discover\<close> of \<^verbatim>\<open>discoverPeers(peer)\<close>, run when the latency timer fires.
  It reads \<^verbatim>\<open>peers.current\<close> at that moment and uses nothing of \<^verbatim>\<open>peer\<close> but its id.
  An exception (\<open>Inl\<close>) ends the round; the state it leaves is not described. Only an
  id that is no hexadecimal number raises one, and no peer of the network has such an id.
\<close>

definition discover :: "string \<Rightarrow> int \<Rightarrow> state \<Rightarrow> error + state" where
  "discover pid now st =
     (case findClosestPeers pid (peers st) 3 of
        Inl e \<Rightarrow> Inl e
      | Inr closestPeers \<Rightarrow>
          (case mapPeers pid now closestPeers (peers st)
                  (discoveryLogs st @ [discoveringMsg pid]) of
             Inl e \<Rightarrow> Inl e
           | Inr (ps, logs) \<Rightarrow>
               Inr (st\<lparr>peers := ps,
                        discoveryLogs := logs @ [foundMsg pid (length closestPeers)]\<rparr>)))"

section \<open>The coordinator\<close>

text \<open>The log effect: while the log is longer than 500 its first entry is shifted out.\<close>

function shiftLoop :: "string list \<Rightarrow> string list" where
  "shiftLoop arr = (if length arr > 500 then shiftLoop (tl arr) else arr)"
  by pat_completeness auto
termination
  by (relation "measure length") auto

declare shiftLoop.simps [simp del]

definition logEffect :: "state \<Rightarrow> state" where
  "logEffect st =
     (if length (discoveryLogs st) > 500
      then st\<lparr>discoveryLogs := shiftLoop (discoveryLogs st)\<rparr>
      else st)"

definition appendLog :: "string \<Rightarrow> state \<Rightarrow> state" where
  "appendLog msg st = st\<lparr>discoveryLogs := discoveryLogs st @ [msg]\<rparr>"

definition removePeer :: "string \<Rightarrow> state \<Rightarrow> state" where
  "removePeer pid st = st\<lparr>peers := filter (\<lambda>p. peer_id p \<noteq> pid) (peers st)\<rparr>"

definition makeAnotherPeer :: "digestFn \<Rightarrow> byte list \<Rightarrow> int \<Rightarrow> state \<Rightarrow> error + state" where
  "makeAnotherPeer digest keys now st =
     (case createPeer digest keys now of
        Inl e \<Rightarrow> Inl e
      | Inr p \<Rightarrow> Inr (st\<lparr>peers := peers st @ [p]\<rparr>))"

text \<open>One turn of the first loop of \<^verbatim>\<open>initNetwork\<close>.\<close>

definition initJoin :: "digestFn \<Rightarrow> byte list \<Rightarrow> int \<Rightarrow> state \<Rightarrow> error + state" where
  "initJoin digest keys now st =
     (case createPeer digest keys now of
        Inl e \<Rightarrow> Inl e
      | Inr p \<Rightarrow> Inr (appendLog (joinedMsg (peer_id p)) (st\<lparr>peers := peers st @ [p]\<rparr>)))"

text \<open>
  The body of the initialising effect, and the slider's \<^verbatim>\<open>onChange\<close>: the effect runs
  again when \<^verbatim>\<open>networkLatency\<close> has changed.
\<close>

definition initEffect :: "state \<Rightarrow> state" where
  "initEffect st = (if started st then st else st\<lparr>started := True, peers := []\<rparr>)"

definition onLatencyChange :: "int \<Rightarrow> state \<Rightarrow> state" where
  "onLatencyChange v st =
     (let st1 = st\<lparr>started := False\<rparr>
      in if v \<noteq> networkLatency st then initEffect (st1\<lparr>networkLatency := v\<rparr>) else st1)"

text \<open>
  The interval callback: a round is started for every peer and every peer is replaced by
  a copy with a new \<^verbatim>\<open>lastSeen\<close> (the random readings are given by position).
\<close>

definition tick :: "(nat \<Rightarrow> int) \<Rightarrow> state \<Rightarrow> state" where
  "tick seen st =
     st\<lparr>peers := map (\<lambda>(i, p). p\<lparr>lastSeen := seen i\<rparr>) (enumerate 0 (peers st)),
        pending := pending st @ map peer_id (peers st)\<rparr>"

text \<open>
  What can happen to the component, one event at a time. The delay of
  \<^verbatim>\<open>simulateLatency\<close> is the distance between the start of a round and its completion:
  any events may lie between the two. A round may be started for any id (the program
  starts rounds also for peers that have left the list meanwhile); a completion for an
  id with no round in flight does nothing.
\<close>

datatype event =
    Mount
  | InitJoin "byte list" int
  | MakeAnotherPeer "byte list" int
  | PowerClick string
  | DiscoverStart string
  | DiscoverDone string int
  | Tick "nat \<Rightarrow> int"
  | LatencyChange int
  | LogEffect

fun step :: "digestFn \<Rightarrow> event \<Rightarrow> state \<Rightarrow> error + state" where
  "step digest Mount st = Inr (initEffect st)"
| "step digest (InitJoin keys now) st = initJoin digest keys now st"
| "step digest (MakeAnotherPeer keys now) st = makeAnotherPeer digest keys now st"
| "step digest (PowerClick pid) st = Inr (removePeer pid st)"
| "step digest (DiscoverStart pid) st = Inr (st\<lparr>pending := pending st @ [pid]\<rparr>)"
| "step digest (DiscoverDone pid now) st =
     (if pid \<in> set (pending st)
      then discover pid now (st\<lparr>pending := remove1 pid (pending st)\<rparr>)
      else Inr st)"
| "step digest (Tick seen) st = Inr (tick seen st)"
| "step digest (LatencyChange v) st = Inr (onLatencyChange v st)"
| "step digest LogEffect st = Inr (logEffect st)"

fun run :: "digestFn \<Rightarrow> event list \<Rightarrow> state \<Rightarrow> error + state" where
  "run digest [] st = Inr st"
| "run digest (e # es) st =
     (case step digest e st of Inl err \<Rightarrow> Inl err | Inr st' \<Rightarrow> run digest es st')"

section \<open>Notions of the specification\<close>

text \<open>
  The candidate set of a round for \<open>pid\<close> (the peers that \<^const>\<open>findClosestPeers\<close>
  keeps before it sorts), and the routing tables of the peers that carry the id \<open>qid\<close>.
\<close>

definition candidates :: "string \<Rightarrow> peer list \<Rightarrow> peer list" where
  "candidates pid ps = filter (\<lambda>p. peer_id p \<noteq> pid) ps"

definition tablesOf :: "string \<Rightarrow> state \<Rightarrow> routing list" where
  "tablesOf qid st = map routingTable (filter (\<lambda>p. peer_id p = qid) (peers st))"

section \<open>Example inputs\<close>

text \<open>
  A stand-in for the digest in the examples: the key bytes, padded with zeros and cut to
  the 32 bytes of a SHA-256 digest.
\<close>

definition padDigest :: digestFn where
  "padDigest k = Inr (take 32 (k @ replicate 32 0))"

text \<open>A freshly created peer whose key is the single byte \<open>b\<close>, under \<^const>\<open>padDigest\<close>.\<close>

definition examplePeer :: "byte \<Rightarrow> peer" where
  "examplePeer b = \<lparr>peer_id = byteHex b @ ''0000000000'', signingKeys = [b],
     routingTable = DAList.empty, lastSeen = 0, status = Discovering\<rparr>"

text \<open>One peer has joined and its first round is in flight.\<close>

definition soloNetwork :: state where
  "soloNetwork = \<lparr>peers = [examplePeer 1], started = True, networkLatency = 200,
     discoveryLogs = [''Peer 010000 joined the network''], pending = [''010000000000'']\<rparr>"

text \<open>The same network after the latency was set to 300: the round is still in flight.\<close>

definition staleNetwork :: state where
  "staleNetwork = \<lparr>peers = [], started = True, networkLatency = 300,
     discoveryLogs = [''Peer 010000 joined the network''], pending = [''010000000000'']\<rparr>"

definition fourPeers :: state where
  "fourPeers = \<lparr>peers = map examplePeer [1, 2, 3, 4], started = True, networkLatency = 200,
     discoveryLogs = [], pending = []\<rparr>"

text \<open>Three peers, after the round of the first one.\<close>

definition threePeers :: state where
  "threePeers = \<lparr>peers =
       [(examplePeer 1)\<lparr>routingTable :=
            Map_set ''020000000000'' \<lparr>distance = 3298534883328, entryLastSeen = 9\<rparr>
              (Map_set ''030000000000'' \<lparr>distance = 2199023255552, entryLastSeen = 9\<rparr>
                 DAList.empty),
          status := Connected\<rparr>,
        examplePeer 2, examplePeer 3],
     started = True, networkLatency = 200, discoveryLogs = [], pending = []\<rparr>"

text \<open>A log that holds exactly 500 entries.\<close>

definition fullLog :: state where
  "fullLog = \<lparr>peers = [], started = True, networkLatency = 200,
     discoveryLogs = replicate 500 ''Peer 010000 found 0 close peers'', pending = []\<rparr>"

section \<open>Properties of the identifiers and of the metric\<close>

lemma hexDigitValue_range: "hexDigitValue c = Some d \<Longrightarrow> 0 \<le> d \<and> d < 16"
  by (auto simp: hexDigitValue_def split: if_splits)

lemma lowerHex_char_of_value:
  "lowerHexDigit c \<Longrightarrow>
     \<exists>d. hexDigitValue c = Some d \<and> 0 \<le> d \<and> d < 16 \<and> hexDigitChar (nat d) = c"
  by (auto simp: lowerHexDigit_def hexDigitValue_def hexDigitChar_def)

lemma lowerHex_inj:
  assumes "lowerHexDigit c" and "lowerHexDigit c'" and "hexDigitValue c = hexDigitValue c'"
  shows "c = c'"
proof -
  from lowerHex_char_of_value [OF assms(1)] obtain d
    where d: "hexDigitValue c = Some d" "hexDigitChar (nat d) = c" by blast
  from lowerHex_char_of_value [OF assms(2)] obtain e
    where e: "hexDigitValue c' = Some e" "hexDigitChar (nat e) = c'" by blast
  from d e assms(3) show ?thesis by simp
qed

lemma hexDigitChar_lower: "n < 16 \<Longrightarrow> lowerHexDigit (hexDigitChar n)"
  unfolding lowerHexDigit_def hexDigitChar_def by (rule nth_mem) simp

lemma lowerHex_is_hex: "lowerHexDigit c \<Longrightarrow> hexDigitValue c \<noteq> None"
  using lowerHex_char_of_value [of c] by auto

lemma parseHexDigits_acc:
  "parseHexDigits acc cs = map_option (\<lambda>v. acc * 16 ^ length cs + v) (parseHexDigits 0 cs)"
proof (induction cs arbitrary: acc)
  case Nil
  then show ?case by simp
next
  case (Cons c cs)
  show ?case
  proof (cases "hexDigitValue c")
    case None
    then show ?thesis by simp
  next
    case (Some d)
    have "parseHexDigits acc (c # cs) = parseHexDigits (acc * 16 + d) cs"
      using Some by simp
    also have "\<dots> = map_option (\<lambda>v. (acc * 16 + d) * 16 ^ length cs + v) (parseHexDigits 0 cs)"
      by (rule Cons.IH)
    finally have l: "parseHexDigits acc (c # cs) =
        map_option (\<lambda>v. (acc * 16 + d) * 16 ^ length cs + v) (parseHexDigits 0 cs)" .
    have "parseHexDigits 0 (c # cs) = parseHexDigits d cs"
      using Some by simp
    also have "\<dots> = map_option (\<lambda>v. d * 16 ^ length cs + v) (parseHexDigits 0 cs)"
      by (rule Cons.IH)
    finally have r: "parseHexDigits 0 (c # cs) =
        map_option (\<lambda>v. d * 16 ^ length cs + v) (parseHexDigits 0 cs)" .
    show ?thesis
      unfolding l r by (cases "parseHexDigits 0 cs") (simp_all add: algebra_simps)
  qed
qed

lemma parseHexDigits_bounds:
  "parseHexDigits 0 cs = Some v \<Longrightarrow> 0 \<le> v \<and> v < 16 ^ length cs"
proof (induction cs arbitrary: v)
  case Nil
  then show ?case by simp
next
  case (Cons c cs)
  from Cons.prems obtain d where d: "hexDigitValue c = Some d"
    by (cases "hexDigitValue c") simp_all
  with Cons.prems have "parseHexDigits d cs = Some v" by simp
  then obtain w where w: "parseHexDigits 0 cs = Some w" and v: "v = d * 16 ^ length cs + w"
    by (subst (asm) parseHexDigits_acc) auto
  from Cons.IH [OF w] have wb: "0 \<le> w" "w < 16 ^ length cs" by simp_all
  from hexDigitValue_range [OF d] have db: "0 \<le> d" "d \<le> 15" by simp_all
  have "d * 16 ^ length cs \<le> 15 * 16 ^ length cs"
    using db by (intro mult_right_mono) simp_all
  with wb have "d * 16 ^ length cs + w < 16 * 16 ^ length cs" by linarith
  moreover have "0 \<le> d * 16 ^ length cs" using db by simp
  ultimately show ?case using wb by (simp add: v)
qed

lemma parseHexDigits_inj:
  assumes "length xs = length ys"
    and "list_all lowerHexDigit xs" and "list_all lowerHexDigit ys"
    and "parseHexDigits 0 xs = Some v" and "parseHexDigits 0 ys = Some v"
  shows "xs = ys"
  using assms
proof (induction xs ys arbitrary: v rule: list_induct2)
  case Nil
  then show ?case by simp
next
  case (Cons x xs y ys)
  from Cons.prems obtain d where d: "hexDigitValue x = Some d"
    by (cases "hexDigitValue x") simp_all
  from Cons.prems obtain e where e: "hexDigitValue y = Some e"
    by (cases "hexDigitValue y") simp_all
  from Cons.prems d have "parseHexDigits d xs = Some v" by simp
  then obtain w where w: "parseHexDigits 0 xs = Some w" and vw: "v = d * 16 ^ length xs + w"
    by (subst (asm) parseHexDigits_acc) auto
  from Cons.prems e have "parseHexDigits e ys = Some v" by simp
  then obtain u where u: "parseHexDigits 0 ys = Some u" and vu: "v = e * 16 ^ length ys + u"
    by (subst (asm) parseHexDigits_acc) auto
  let ?m = "(16::int) ^ length xs"
  have len: "length ys = length xs" using Cons.hyps by simp
  from parseHexDigits_bounds [OF w] have wb: "0 \<le> w" "w < ?m" by simp_all
  from parseHexDigits_bounds [OF u] have ub: "0 \<le> u" "u < ?m" by (simp_all add: len)
  have eq: "d * ?m + w = e * ?m + u" using vw vu len by simp
  have "(d * ?m + w) div ?m = d" using wb by simp
  moreover have "(e * ?m + u) div ?m = e" using ub by simp
  ultimately have de: "d = e" using eq by simp
  with eq have wu: "w = u" by simp
  from de d e Cons.prems have "x = y" by (auto intro: lowerHex_inj)
  moreover from Cons.IH [of w] w u wu Cons.prems have "xs = ys" by simp
  ultimately show ?case by simp
qed

lemma hexDigits_parse:
  "list_all (\<lambda>c. hexDigitValue c \<noteq> None) cs \<Longrightarrow> \<exists>v. parseHexDigits acc cs = Some v"
  by (induction cs arbitrary: acc) auto

lemma whiteSpace_not_hex:
  assumes "strWhiteSpaceChar c"
  shows "hexDigitValue c = None"
proof -
  from assms have "c = CHR 0x09 \<or> c = CHR 0x0A \<or> c = CHR 0x0B \<or> c = CHR 0x0C \<or>
      c = CHR 0x0D \<or> c = CHR 0x20 \<or> c = CHR 0xA0"
    by (simp add: strWhiteSpaceChar_def)
  then show ?thesis by (elim disjE) (simp_all add: hexDigitValue_def)
qed

lemma dropTrailingWhiteSpace_hexString:
  assumes "hexString s"
  shows "dropTrailingWhiteSpace s = s"
proof -
  from assms obtain ys y where s: "s = ys @ [y]" and y: "hexDigitValue y \<noteq> None"
    by (cases s rule: rev_cases) (auto simp: hexString_def)
  from y have "\<not> strWhiteSpaceChar y" by (auto dest: whiteSpace_not_hex)
  then show ?thesis by (simp add: dropTrailingWhiteSpace_def s)
qed

lemma BigInt0x_hexString:
  "hexString s \<Longrightarrow>
     BigInt0x s = (case parseHexDigits 0 s of None \<Rightarrow> Inl SyntaxError | Some n \<Rightarrow> Inr n)"
  by (simp add: BigInt0x_def dropTrailingWhiteSpace_hexString) (simp add: hexString_def)

lemma hexString_BigInt0x: "hexString s \<Longrightarrow> \<exists>n. BigInt0x s = Inr n"
  using hexDigits_parse [of s 0] by (auto simp: BigInt0x_hexString) (auto simp: hexString_def)

lemma BigInt0x_error: "BigInt0x s = Inl e \<Longrightarrow> e = SyntaxError"
  by (auto simp: BigInt0x_def Let_def split: if_splits option.splits)

lemma BigInt0x_Inr_nonempty: "BigInt0x s = Inr n \<Longrightarrow> s \<noteq> []"
  by (auto simp: BigInt0x_def dropTrailingWhiteSpace_def)

text \<open>White space after the digits is accepted, white space alone or elsewhere is not.\<close>

lemma BigInt0x_white_space:
  "BigInt0x ''1f '' = Inr 31" "BigInt0x '' '' = Inl SyntaxError"
  "BigInt0x [] = Inl SyntaxError" "BigInt0x ''1 f'' = Inl SyntaxError"
  "BigInt0x '' 1f'' = Inl SyntaxError"
  by (simp_all add: BigInt0x_def dropTrailingWhiteSpace_def strWhiteSpaceChar_def
      hexDigitValue_def)

lemma peerIdFormat_hexString: "peerIdFormat s \<Longrightarrow> hexString s"
  unfolding peerIdFormat_def hexString_def
  by (auto simp: list_all_iff dest: lowerHex_is_hex)

lemma peerIdFormat_BigInt0x: "peerIdFormat s \<Longrightarrow> \<exists>n. BigInt0x s = Inr n"
  by (rule hexString_BigInt0x [OF peerIdFormat_hexString])

lemma xor_zero_iff_int: "(a::int) XOR b = 0 \<longleftrightarrow> a = b"
  by (metis xor.left_neutral xor_self_eq xor.assoc)

lemma calculateDistance_total:
  "hexString a \<Longrightarrow> hexString b \<Longrightarrow> \<exists>d. calculateDistance a b = Inr d"
  using hexString_BigInt0x [of a] hexString_BigInt0x [of b]
  by (auto simp: calculateDistance_def)

lemma BigInt0x_nonneg: "BigInt0x s = Inr n \<Longrightarrow> 0 \<le> n"
  by (auto simp: BigInt0x_def Let_def split: if_splits option.splits
      dest: parseHexDigits_bounds)


text \<open>
  Claim C7. The distance is symmetric: \<open>calculateDistance a b\<close> and
  \<open>calculateDistance b a\<close> are the same value (the same SyntaxError when one of the
  texts is no hexadecimal number); the distance of an id to itself is 0 whenever the id
  is a hexadecimal number at all; and the distance of two ids that parse is the bitwise
  XOR of the two numbers, which are not negative.
\<close>

theorem distance_symmetric_and_zero:
  "calculateDistance a b = calculateDistance b a \<and>
   (hexString a \<longrightarrow> calculateDistance a a = Inr 0) \<and>
   (\<forall>m n. BigInt0x a = Inr m \<and> BigInt0x b = Inr n \<longrightarrow>
      0 \<le> m \<and> 0 \<le> n \<and> calculateDistance a b = Inr (m XOR n))"
proof (intro conjI)
  show "calculateDistance a b = calculateDistance b a"
    by (auto simp: calculateDistance_def xor.commute split: sum.splits dest: BigInt0x_error)
  show "hexString a \<longrightarrow> calculateDistance a a = Inr 0"
    using hexString_BigInt0x [of a] by (auto simp: calculateDistance_def)
  show "\<forall>m n. BigInt0x a = Inr m \<and> BigInt0x b = Inr n \<longrightarrow>
      0 \<le> m \<and> 0 \<le> n \<and> calculateDistance a b = Inr (m XOR n)"
    by (auto simp: calculateDistance_def dest: BigInt0x_nonneg)
qed

theorem distance_symmetric_and_zero_witness:
  "hexString ''a1b2c3d4e5f6'' \<and>
   BigInt0x ''a1b2c3d4e5f6'' = Inr 177789161760246 \<and>
   BigInt0x ''0123456789ab'' = Inr 1250999896491 \<and>
   calculateDistance ''a1b2c3d4e5f6'' ''a1b2c3d4e5f6'' = Inr 0 \<and>
   calculateDistance ''a1b2c3d4e5f6'' ''0123456789ab'' = Inr 176546890607709 \<and>
   calculateDistance ''0123456789ab'' ''a1b2c3d4e5f6'' = Inr 176546890607709"
proof -
  have h: "hexString ''a1b2c3d4e5f6''"
    by (simp add: hexString_def hexDigitValue_def)
  have m: "BigInt0x ''a1b2c3d4e5f6'' = Inr 177789161760246"
    by (simp add: BigInt0x_def dropTrailingWhiteSpace_def strWhiteSpaceChar_def
        hexDigitValue_def)
  have n: "BigInt0x ''0123456789ab'' = Inr 1250999896491"
    by (simp add: BigInt0x_def dropTrailingWhiteSpace_def strWhiteSpaceChar_def
        hexDigitValue_def)
  have x: "(177789161760246::int) XOR 1250999896491 = 176546890607709" by simp
  note r = distance_symmetric_and_zero [of "''a1b2c3d4e5f6''" "''0123456789ab''"]
  from r h have z: "calculateDistance ''a1b2c3d4e5f6'' ''a1b2c3d4e5f6'' = Inr 0" by blast
  from r m n have "calculateDistance ''a1b2c3d4e5f6'' ''0123456789ab''
      = Inr (177789161760246 XOR 1250999896491)" by blast
  then have d: "calculateDistance ''a1b2c3d4e5f6'' ''0123456789ab'' = Inr 176546890607709"
    by (simp only: x)
  from r d have e: "calculateDistance ''0123456789ab'' ''a1b2c3d4e5f6'' = Inr 176546890607709"
    by simp
  from h m n z d e show ?thesis by blast
qed

text \<open>
  Claim C9. For two ids of the program's format (twelve lowercase hexadecimal digits) the
  distance is 0 exactly when the ids are equal.
\<close>

theorem distance_zero_iff_equal:
  assumes "peerIdFormat a" and "peerIdFormat b"
  shows "calculateDistance a b = Inr 0 \<longleftrightarrow> a = b"
proof
  assume z: "calculateDistance a b = Inr 0"
  from assms obtain m n where m: "BigInt0x a = Inr m" and n: "BigInt0x b = Inr n"
    using peerIdFormat_BigInt0x by blast
  with z have "m = n" by (simp add: calculateDistance_def xor_zero_iff_int)
  with m n assms have "parseHexDigits 0 a = Some m" "parseHexDigits 0 b = Some m"
    by (auto simp: BigInt0x_hexString peerIdFormat_hexString split: option.splits)
  with assms show "a = b"
    by (intro parseHexDigits_inj [of a b m]) (simp_all add: peerIdFormat_def)
next
  assume "a = b"
  with assms show "calculateDistance a b = Inr 0"
    using peerIdFormat_BigInt0x [of a] by (auto simp: calculateDistance_def)
qed

theorem distance_zero_iff_equal_witness:
  "peerIdFormat ''a1b2c3d4e5f6'' \<and> peerIdFormat ''a1b2c3d4e5f7'' \<and>
   calculateDistance ''a1b2c3d4e5f6'' ''a1b2c3d4e5f6'' = Inr 0 \<and>
   calculateDistance ''a1b2c3d4e5f6'' ''a1b2c3d4e5f7'' \<noteq> Inr 0"
proof -
  have a: "peerIdFormat ''a1b2c3d4e5f6''"
    by (simp add: peerIdFormat_def lowerHexDigit_def)
  have b: "peerIdFormat ''a1b2c3d4e5f7''"
    by (simp add: peerIdFormat_def lowerHexDigit_def)
  from distance_zero_iff_equal [OF a a] distance_zero_iff_equal [OF a b] a b
  show ?thesis by simp
qed


section \<open>Properties of the identity generator\<close>

lemma byteHex_digits:
  "byteHex b = [hexDigitChar (unat b div 16), hexDigitChar (unat b mod 16)]"
proof -
  have lt: "unat b < 256" using unsigned_less [of b, where ?'a = nat] by simp
  show ?thesis
  proof (cases "unat b < 16")
    case True
    then have "toString16 (unat b) = [hexDigitChar (unat b)]"
      by (simp add: toString16.simps)
    with True show ?thesis
      by (simp add: byteHex_def padStart_def hexDigitChar_def)
  next
    case False
    from lt have "unat b div 16 < 16" by simp
    then have "toString16 (unat b div 16) = [hexDigitChar (unat b div 16)]"
      by (simp add: toString16.simps)
    with False have "toString16 (unat b) = [hexDigitChar (unat b div 16), hexDigitChar (unat b mod 16)]"
      by (subst toString16.simps) simp
    then show ?thesis by (simp add: byteHex_def padStart_def)
  qed
qed

lemma byteHex_length: "length (byteHex b) = 2"
  by (simp add: byteHex_digits)

lemma byteHex_lower: "list_all lowerHexDigit (byteHex b)"
proof -
  have "unat b < 256" using unsigned_less [of b, where ?'a = nat] by simp
  then have "unat b div 16 < 16" by simp
  then show ?thesis by (simp add: byteHex_digits hexDigitChar_lower)
qed

lemma concat_byteHex_length: "length (concat (map byteHex bs)) = 2 * length bs"
  by (induction bs) (simp_all add: byteHex_length)

lemma concat_byteHex_lower: "list_all lowerHexDigit (concat (map byteHex bs))"
  by (induction bs) (simp_all add: byteHex_lower)

lemma take_concat_byteHex:
  "take (2 * n) (concat (map byteHex bs)) = concat (map byteHex (take n bs))"
proof (induction bs arbitrary: n)
  case Nil
  then show ?case by simp
next
  case (Cons b bs)
  show ?case
  proof (cases n)
    case 0
    then show ?thesis by simp
  next
    case (Suc m)
    with Cons.IH [of m] show ?thesis by (simp add: byteHex_length)
  qed
qed

lemma generatePeerId_Inr:
  "digest publicKey = Inr hash \<Longrightarrow>
     generatePeerId digest publicKey = Inr (concat (map byteHex (take 6 hash)))"
  using take_concat_byteHex [of 6 hash] by (simp add: generatePeerId_def)

lemma generatePeerId_Inl: "digest publicKey = Inl e \<Longrightarrow> generatePeerId digest publicKey = Inl e"
  by (simp add: generatePeerId_def)

lemma generatePeerId_lower:
  "generatePeerId digest publicKey = Inr i \<Longrightarrow> list_all lowerHexDigit i"
  by (cases "digest publicKey") (auto simp: generatePeerId_Inr concat_byteHex_lower
      generatePeerId_Inl)

lemma generatePeerId_peerIdFormat:
  assumes "digest publicKey = Inr hash" and "6 \<le> length hash"
    and "generatePeerId digest publicKey = Inr i"
  shows "peerIdFormat i"
proof -
  from assms(1,3) have "i = concat (map byteHex (take 6 hash))"
    by (simp add: generatePeerId_Inr)
  with assms(2) show ?thesis
    by (simp add: peerIdFormat_def concat_byteHex_lower concat_byteHex_length)
qed

text \<open>
  Claim C8. The id is a function of the digest of the key alone: it is the first twelve
  characters of the digest rendered byte by byte as two lowercase hexadecimal digits,
  which are the six leading digest bytes; for a digest of 32 bytes (256 bits) it has
  exactly twelve characters, all of them lowercase hexadecimal digits.
\<close>

theorem generatePeerId_fixed_length_hex:
  assumes "digest publicKey = Inr hash" and "length hash = 32"
  shows "\<exists>i. generatePeerId digest publicKey = Inr i \<and>
           length i = 12 \<and> list_all lowerHexDigit i \<and>
           i = take 12 (concat (map byteHex hash)) \<and>
           i = concat (map byteHex (take 6 hash))"
proof -
  have g: "generatePeerId digest publicKey = Inr (concat (map byteHex (take 6 hash)))"
    by (rule generatePeerId_Inr [of digest publicKey hash, OF assms(1)])
  from assms(2) have "6 \<le> length hash" by simp
  from generatePeerId_peerIdFormat [of digest publicKey hash, OF assms(1) this g]
  have "peerIdFormat (concat (map byteHex (take 6 hash)))" .
  moreover have "concat (map byteHex (take 6 hash)) = take 12 (concat (map byteHex hash))"
    using take_concat_byteHex [of 6 hash] by simp
  ultimately show ?thesis using g by (simp add: peerIdFormat_def)
qed

theorem generatePeerId_fixed_length_hex_witness:
  "padDigest [1, 2, 255] =
     Inr [1, 2, 255, 0, 0, 0, 0, 0, 0, 0, 0, 0, 0, 0, 0, 0, 0, 0, 0, 0, 0, 0, 0, 0, 0, 0, 0,
          0, 0, 0, 0, 0] \<and>
   generatePeerId padDigest [1, 2, 255] = Inr ''0102ff000000'' \<and>
   length ''0102ff000000'' = 12"
proof -
  let ?h = "[1, 2, 255, 0, 0, 0, 0, 0, 0, 0, 0, 0, 0, 0, 0, 0, 0, 0, 0, 0, 0, 0, 0, 0, 0, 0, 0,
          0, 0, 0, 0, 0] :: byte list"
  have "replicate 32 (0::byte) = [0, 0, 0, 0, 0, 0, 0, 0, 0, 0, 0, 0, 0, 0, 0, 0, 0, 0, 0, 0,
      0, 0, 0, 0, 0, 0, 0, 0, 0, 0, 0, 0]"
    by (simp add: numeral_Bit0 replicate_add)
  then have d: "padDigest [1, 2, 255] = Inr ?h" by (simp add: padDigest_def)
  have l: "length ?h = 32" by simp
  have v: "concat (map byteHex (take 6 ?h)) = ''0102ff000000''"
    by (simp add: byteHex_digits hexDigitChar_def)
  from generatePeerId_fixed_length_hex [of padDigest "[1, 2, 255]" ?h, OF d l] obtain i where
    "generatePeerId padDigest [1, 2, 255] = Inr i" "i = concat (map byteHex (take 6 ?h))"
    by blast
  with v have "generatePeerId padDigest [1, 2, 255] = Inr ''0102ff000000''" by (simp only:)
  with d show ?thesis by simp
qed

section \<open>Properties of a discovery round\<close>

subsection \<open>Sorting\<close>

lemma insertBy_mset: "insertBy cmp x ys = Inr zs \<Longrightarrow> mset zs = add_mset x (mset ys)"
  by (induction ys arbitrary: zs) (auto split: sum.splits if_splits)

lemma sortLoop_mset: "sortLoop cmp acc xs = Inr zs \<Longrightarrow> mset zs = mset acc + mset xs"
proof (induction xs arbitrary: acc)
  case Nil
  then show ?case by simp
next
  case (Cons x xs)
  from Cons.prems obtain acc' where a: "insertBy cmp x acc = Inr acc'"
    and r: "sortLoop cmp acc' xs = Inr zs"
    by (auto split: sum.splits)
  from Cons.IH [OF r] insertBy_mset [OF a] show ?case by simp
qed

lemma sortBy_mset: "sortBy cmp xs = Inr zs \<Longrightarrow> mset zs = mset xs"
  unfolding sortBy_def by (drule sortLoop_mset) simp

lemma insertBy_total:
  "\<forall>y \<in> set ys. \<exists>c. cmp x y = Inr c \<Longrightarrow> \<exists>zs. insertBy cmp x ys = Inr zs"
  by (induction ys) (auto split: sum.splits)

lemma sortLoop_total:
  assumes "\<forall>x \<in> set xs \<union> set acc. \<forall>y \<in> set xs \<union> set acc. \<exists>c. cmp x y = Inr c"
  shows "\<exists>zs. sortLoop cmp acc xs = Inr zs"
  using assms
proof (induction xs arbitrary: acc)
  case Nil
  then show ?case by simp
next
  case (Cons x xs)
  from Cons.prems have "\<forall>y \<in> set acc. \<exists>c. cmp x y = Inr c" by simp
  from insertBy_total [where ys = acc and cmp = cmp and x = x, OF this] obtain acc' where a: "insertBy cmp x acc = Inr acc'" by blast
  from insertBy_mset [OF a] have "set acc' = insert x (set acc)"
    by (metis set_mset_add_mset_insert set_mset_mset)
  with Cons.prems
  have "\<forall>u \<in> set xs \<union> set acc'. \<forall>y \<in> set xs \<union> set acc'. \<exists>c. cmp u y = Inr c"
    by auto
  from Cons.IH [OF this] a show ?case by simp
qed

lemma compareFn_total:
  "hexString t \<Longrightarrow> hexString (peer_id a) \<Longrightarrow> hexString (peer_id b) \<Longrightarrow>
     \<exists>c. compareFn t a b = Inr c"
  using calculateDistance_total [of "peer_id a" t] calculateDistance_total [of "peer_id b" t]
  by (auto simp: compareFn_def)

subsection \<open>Closest peers\<close>

lemma findClosestPeers_ranked:
  assumes "findClosestPeers pid ps cnt = Inr cs"
  obtains ranked where "mset ranked = mset (candidates pid ps)" and "cs = take cnt ranked"
  using assms sortBy_mset
  by (fastforce simp: findClosestPeers_def candidates_def split: sum.splits)

lemma findClosestPeers_length:
  assumes "findClosestPeers pid ps cnt = Inr cs"
  shows "length cs = min cnt (length (candidates pid ps))"
proof -
  from assms obtain ranked where r: "mset ranked = mset (candidates pid ps)" "cs = take cnt ranked"
    by (rule findClosestPeers_ranked)
  from r(1) have "length ranked = length (candidates pid ps)" by (rule mset_eq_length)
  with r(2) show ?thesis by simp
qed

lemma findClosestPeers_subset:
  assumes "findClosestPeers pid ps cnt = Inr cs"
  shows "set cs \<subseteq> set (candidates pid ps)"
proof -
  from assms obtain ranked where r: "mset ranked = mset (candidates pid ps)" "cs = take cnt ranked"
    by (rule findClosestPeers_ranked)
  from r(1) have "set ranked = set (candidates pid ps)" by (rule mset_eq_setD)
  with r(2) show ?thesis using set_take_subset [of cnt ranked] by simp
qed

lemma findClosestPeers_not_self:
  "findClosestPeers pid ps cnt = Inr cs \<Longrightarrow> c \<in> set cs \<Longrightarrow> peer_id c \<noteq> pid \<and> c \<in> set ps"
  using findClosestPeers_subset [of pid ps cnt cs] by (auto simp: candidates_def)

lemma findClosestPeers_distinct:
  assumes "findClosestPeers pid ps cnt = Inr cs" and "distinct (map peer_id ps)"
  shows "distinct (map peer_id cs)"
proof -
  from assms(1) obtain ranked where r: "mset ranked = mset (candidates pid ps)" "cs = take cnt ranked"
    by (rule findClosestPeers_ranked)
  from assms(2) have "distinct (map peer_id (candidates pid ps))"
    unfolding candidates_def by (rule distinct_map_filter)
  moreover from r(1) have "mset (map peer_id ranked) = mset (map peer_id (candidates pid ps))"
    by simp
  ultimately have "distinct (map peer_id ranked)"
    by (metis mset_eq_imp_distinct_iff)
  then show ?thesis unfolding r(2) by (simp add: take_map [symmetric])
qed

lemma findClosestPeers_empty:
  "candidates pid ps = [] \<Longrightarrow> findClosestPeers pid ps cnt = Inr []"
  by (simp add: findClosestPeers_def candidates_def sortBy_def)

lemma findClosestPeers_total:
  assumes "hexString pid" and "\<forall>p \<in> set ps. hexString (peer_id p)"
  shows "\<exists>cs. findClosestPeers pid ps cnt = Inr cs"
proof -
  let ?xs = "filter (\<lambda>p. peer_id p \<noteq> pid) ps"
  from assms have "\<forall>x \<in> set ?xs \<union> set []. \<forall>y \<in> set ?xs \<union> set []. \<exists>c. compareFn pid x y = Inr c"
    by (auto intro: compareFn_total)
  from sortLoop_total [where xs = "?xs" and acc = "[]" and cmp = "compareFn pid", OF this] show ?thesis
    by (auto simp: findClosestPeers_def sortBy_def)
qed

subsection \<open>Routing tables\<close>

lemma Map_keys_distinct: "distinct (Map_keys m)"
  by (simp add: Map_keys_def Map_entries_def)

lemma Map_size_card: "Map_size m = card (set (Map_keys m))"
  using distinct_card [OF Map_keys_distinct, of m]
  by (simp add: Map_size_def Map_keys_def)

lemma Map_entries_clear: "Map_entries (Map_clear m) = []"
  by (simp add: Map_entries_def Map_clear_def empty.rep_eq)

lemma Map_entries_empty: "Map_entries DAList.empty = []"
  by (simp add: Map_entries_def empty.rep_eq)

lemma Map_entries_delete:
  "Map_entries (Map_delete k m) = filter (\<lambda>e. fst e \<noteq> k) (Map_entries m)"
  by (auto simp: Map_entries_def Map_delete_def delete.rep_eq AList.delete_eq intro!: filter_cong)

lemma update_set_distinct:
  "distinct (map fst al) \<Longrightarrow>
     set (AList.update k v al) = insert (k, v) {e \<in> set al. fst e \<noteq> k}"
  by (induction al) (auto simp: rev_image_eqI)

lemma Map_entries_set:
  "set (Map_entries (Map_set k v m)) = insert (k, v) {e \<in> set (Map_entries m). fst e \<noteq> k}"
  unfolding Map_entries_def Map_set_def update.rep_eq
  by (rule update_set_distinct) simp

lemma Map_keys_set: "set (Map_keys (Map_set k v m)) = insert k (set (Map_keys m))"
  unfolding Map_keys_def by (auto simp: Map_entries_set rev_image_eqI)

subsection \<open>Pruning and upserting\<close>

lemma pruneTable_entries:
  "Map_entries (fst (pruneTable pid new ids rt logs)) =
     filter (\<lambda>e. fst e \<in> set ids \<longrightarrow> fst e \<in> set new) (Map_entries rt)"
proof (induction ids arbitrary: rt logs)
  case Nil
  then show ?case by simp
next
  case (Cons i ids)
  show ?case
  proof (cases "i \<in> set new")
    case True
    then show ?thesis
      by (auto simp: Cons.IH intro!: filter_cong)
  next
    case False
    then show ?thesis
      by (auto simp: Cons.IH Map_entries_delete intro!: filter_cong)
  qed
qed

lemma pruneTable_logs:
  "snd (pruneTable pid new ids rt logs) =
     logs @ map (removedMsg pid) (filter (\<lambda>i. i \<notin> set new) ids)"
  by (induction ids arbitrary: rt logs) simp_all

lemma pruneTable_keys_snapshot:
  "set (Map_keys (fst (pruneTable pid new (Map_keys rt) rt logs))) = set (Map_keys rt) \<inter> set new"
  by (auto simp: Map_keys_def pruneTable_entries)

lemma upsertClosest_entries:
  assumes "upsertClosest pid now cs rt = Inr rt'" and "(k, v) \<in> set (Map_entries rt')"
  shows "(k \<in> peer_id ` set cs \<and> calculateDistance pid k = Inr (distance v)
            \<and> entryLastSeen v = now)
         \<or> ((k, v) \<in> set (Map_entries rt) \<and> k \<notin> peer_id ` set cs)"
  using assms
proof (induction cs arbitrary: rt)
  case Nil
  then show ?case by simp
next
  case (Cons c cs)
  from Cons.prems(1) obtain d where d: "calculateDistance pid (peer_id c) = Inr d"
    and r: "upsertClosest pid now cs
              (Map_set (peer_id c) \<lparr>distance = d, entryLastSeen = now\<rparr> rt) = Inr rt'"
    by (auto split: sum.splits)
  from Cons.IH [OF r Cons.prems(2)] d show ?case
    by (auto simp: Map_entries_set)
qed

lemma upsertClosest_keys:
  "upsertClosest pid now cs rt = Inr rt' \<Longrightarrow>
     set (Map_keys rt') = set (Map_keys rt) \<union> peer_id ` set cs"
proof (induction cs arbitrary: rt)
  case Nil
  then show ?case by simp
next
  case (Cons c cs)
  from Cons.prems obtain d where
    r: "upsertClosest pid now cs
          (Map_set (peer_id c) \<lparr>distance = d, entryLastSeen = now\<rparr> rt) = Inr rt'"
    by (auto split: sum.splits)
  from Cons.IH [OF r] show ?case by (auto simp: Map_keys_set)
qed

lemma upsertClosest_total:
  assumes "hexString pid" and "\<forall>c \<in> set cs. hexString (peer_id c)"
  shows "\<exists>rt'. upsertClosest pid now cs rt = Inr rt'"
  using assms(2)
proof (induction cs arbitrary: rt)
  case Nil
  then show ?case by simp
next
  case (Cons c cs)
  from Cons.prems assms(1) obtain d where "calculateDistance pid (peer_id c) = Inr d"
    using calculateDistance_total [of pid "peer_id c"] by auto
  with Cons show ?case by simp
qed

subsection \<open>The update of one peer\<close>

lemma updatePeer_other:
  "peer_id p \<noteq> pid \<Longrightarrow> updatePeer pid now cs p logs = Inr (p, logs)"
  by (simp add: updatePeer_def)

lemma updatePeer_cleared:
  "peer_id p = pid \<Longrightarrow>
     updatePeer pid now [] p logs =
       Inr (p\<lparr>routingTable := Map_clear (routingTable p), status := Connected\<rparr>,
            logs @ [clearedMsg pid])"
  by (simp add: updatePeer_def)

lemma updatePeer_frame:
  "updatePeer pid now cs p logs = Inr (p', logs') \<Longrightarrow>
     peer_id p' = peer_id p \<and> signingKeys p' = signingKeys p \<and> lastSeen p' = lastSeen p"
  by (auto simp: updatePeer_def Let_def split: if_splits prod.splits sum.splits)

lemma updatePeer_status:
  "updatePeer pid now cs p logs = Inr (p', logs') \<Longrightarrow> peer_id p = pid \<Longrightarrow>
     status p' = Connected"
  by (auto simp: updatePeer_def Let_def split: if_splits prod.splits sum.splits)

lemma updatePeer_keys:
  assumes "updatePeer pid now cs p logs = Inr (p', logs')" and "peer_id p = pid"
  shows "set (Map_keys (routingTable p')) = peer_id ` set cs"
proof (cases "cs = []")
  case True
  with assms show ?thesis
    by (auto simp: updatePeer_def Map_keys_def Map_entries_clear)
next
  case False
  obtain rt1 logs1 where
    pr: "pruneTable pid (map peer_id cs) (Map_keys (routingTable p)) (routingTable p) logs
           = (rt1, logs1)"
    by (cases "pruneTable pid (map peer_id cs) (Map_keys (routingTable p)) (routingTable p) logs")
  with assms False have up: "upsertClosest pid now cs rt1 = Inr (routingTable p')"
    by (auto simp: updatePeer_def split: sum.splits)
  from pruneTable_keys_snapshot [of pid "map peer_id cs" "routingTable p" logs] pr
  have "set (Map_keys rt1) = set (Map_keys (routingTable p)) \<inter> peer_id ` set cs"
    by simp
  with upsertClosest_keys [OF up] show ?thesis by auto
qed

lemma updatePeer_distances:
  assumes "updatePeer pid now cs p logs = Inr (p', logs')" and "peer_id p = pid"
    and "(k, v) \<in> set (Map_entries (routingTable p'))"
  shows "calculateDistance pid k = Inr (distance v)"
proof (cases "cs = []")
  case True
  with assms show ?thesis
    by (auto simp: updatePeer_def Map_entries_clear)
next
  case False
  obtain rt1 logs1 where
    pr: "pruneTable pid (map peer_id cs) (Map_keys (routingTable p)) (routingTable p) logs
           = (rt1, logs1)"
    by (cases "pruneTable pid (map peer_id cs) (Map_keys (routingTable p)) (routingTable p) logs")
  with assms False have up: "upsertClosest pid now cs rt1 = Inr (routingTable p')"
    by (auto simp: updatePeer_def split: sum.splits)
  from pruneTable_keys_snapshot [of pid "map peer_id cs" "routingTable p" logs] pr
  have k1: "set (Map_keys rt1) \<subseteq> peer_id ` set cs"
    by simp
  from upsertClosest_entries [OF up assms(3)] show ?thesis
  proof
    assume "k \<in> peer_id ` set cs \<and> calculateDistance pid k = Inr (distance v)
              \<and> entryLastSeen v = now"
    then show ?thesis by simp
  next
    assume a: "(k, v) \<in> set (Map_entries rt1) \<and> k \<notin> peer_id ` set cs"
    then have "k \<in> set (Map_keys rt1)" by (force simp: Map_keys_def)
    with k1 a show ?thesis by blast
  qed
qed

lemma updatePeer_logs:
  "updatePeer pid now cs p logs = Inr (p', logs') \<Longrightarrow> \<exists>ext. logs' = logs @ ext"
  using pruneTable_logs [of pid "map peer_id cs" "Map_keys (routingTable p)" "routingTable p" logs]
  by (auto simp: updatePeer_def Let_def split: if_splits prod.splits sum.splits)

lemma updatePeer_total:
  assumes "hexString pid" and "\<forall>c \<in> set cs. hexString (peer_id c)"
  shows "\<exists>r. updatePeer pid now cs p logs = Inr r"
  using upsertClosest_total [OF assms]
  by (auto simp: updatePeer_def Let_def split: prod.splits sum.splits) (metis Inl_Inr_False)

subsection \<open>The map over the peers\<close>

lemma mapPeers_rel:
  "mapPeers pid now cs ps logs = Inr (ps', logs') \<Longrightarrow>
     list_all2 (\<lambda>p p'. \<exists>l l'. updatePeer pid now cs p l = Inr (p', l')) ps ps'"
proof (induction ps arbitrary: logs ps')
  case Nil
  then show ?case by simp
next
  case (Cons p ps)
  from Cons.prems obtain p' l1 qs where
    u: "updatePeer pid now cs p logs = Inr (p', l1)" and
    m: "mapPeers pid now cs ps l1 = Inr (qs, logs')" and
    e: "ps' = p' # qs"
    by (auto split: sum.splits prod.splits)
  from Cons.IH [OF m] u e show ?case by auto
qed

lemma mapPeers_logs:
  "mapPeers pid now cs ps logs = Inr (ps', logs') \<Longrightarrow> \<exists>ext. logs' = logs @ ext"
proof (induction ps arbitrary: logs ps')
  case Nil
  then show ?case by simp
next
  case (Cons p ps)
  from Cons.prems obtain p' l1 qs where
    u: "updatePeer pid now cs p logs = Inr (p', l1)" and
    m: "mapPeers pid now cs ps l1 = Inr (qs, logs')"
    by (auto split: sum.splits prod.splits)
  from updatePeer_logs [OF u] Cons.IH [OF m] show ?case by auto
qed

lemma mapPeers_absent:
  "pid \<notin> peer_id ` set ps \<Longrightarrow> mapPeers pid now cs ps logs = Inr (ps, logs)"
  by (induction ps) (auto simp: updatePeer_other)

lemma mapPeers_cleared:
  "\<forall>p \<in> set ps. peer_id p = pid \<Longrightarrow>
     mapPeers pid now [] ps logs =
       Inr (map (\<lambda>p. p\<lparr>routingTable := Map_clear (routingTable p), status := Connected\<rparr>) ps,
            logs @ replicate (length ps) (clearedMsg pid))"
proof (induction ps arbitrary: logs)
  case Nil
  then show ?case by simp
next
  case (Cons p ps)
  then show ?case
    by (simp add: updatePeer_cleared replicate_append_same)
qed

lemma mapPeers_total:
  assumes "hexString pid" and "\<forall>c \<in> set cs. hexString (peer_id c)"
  shows "\<exists>r. mapPeers pid now cs ps logs = Inr r"
proof (induction ps arbitrary: logs)
  case Nil
  then show ?case by simp
next
  case (Cons p ps)
  from updatePeer_total [OF assms] obtain p' l1 where
    u: "updatePeer pid now cs p logs = Inr (p', l1)" by fastforce
  from Cons.IH [of l1] obtain r where "mapPeers pid now cs ps l1 = Inr r" by blast
  with u show ?case by (cases r) simp
qed

subsection \<open>The round\<close>

lemma discover_Inr:
  assumes "discover pid now st = Inr st'"
  obtains cs logs where
    "findClosestPeers pid (peers st) 3 = Inr cs"
    "mapPeers pid now cs (peers st) (discoveryLogs st @ [discoveringMsg pid]) = Inr (peers st', logs)"
    "discoveryLogs st' = logs @ [foundMsg pid (length cs)]"
    "started st' = started st" "networkLatency st' = networkLatency st" "pending st' = pending st"
  using assms by (auto simp: discover_def split: sum.splits prod.splits)

lemma discover_peer:
  assumes "discover pid now st = Inr st'" and "p' \<in> set (peers st')"
  obtains cs p l l' where
    "findClosestPeers pid (peers st) 3 = Inr cs" "p \<in> set (peers st)"
    "updatePeer pid now cs p l = Inr (p', l')"
proof -
  from assms(1) obtain cs logs where
    f: "findClosestPeers pid (peers st) 3 = Inr cs" and
    m: "mapPeers pid now cs (peers st) (discoveryLogs st @ [discoveringMsg pid]) = Inr (peers st', logs)"
    by (rule discover_Inr)
  from assms(2) obtain i where i: "i < length (peers st')" "p' = peers st' ! i"
    by (auto simp: in_set_conv_nth)
  from mapPeers_rel [OF m] i
  have len: "length (peers st) = length (peers st')"
    and u: "\<exists>l l'. updatePeer pid now cs (peers st ! i) l = Inr (p', l')"
    by (simp_all add: list_all2_conv_all_nth)
  from len i(1) have "peers st ! i \<in> set (peers st)" by simp
  with u obtain p where
    "p \<in> set (peers st)" "\<exists>l l'. updatePeer pid now cs p l = Inr (p', l')"
    by blast
  with f that show ?thesis by blast
qed

lemma discover_ids:
  assumes "discover pid now st = Inr st'"
  shows "map peer_id (peers st') = map peer_id (peers st)"
proof -
  from assms obtain cs logs where
    m: "mapPeers pid now cs (peers st) (discoveryLogs st @ [discoveringMsg pid]) = Inr (peers st', logs)"
    by (rule discover_Inr)
  from mapPeers_rel [OF m]
  have "list_all2 (\<lambda>p p'. peer_id p' = peer_id p) (peers st) (peers st')"
    by (rule list_all2_mono) (auto dest: updatePeer_frame)
  then show ?thesis
    by (simp add: list_all2_conv_all_nth list_eq_iff_nth_eq)
qed

lemma discover_total:
  assumes "hexString pid" and "\<forall>p \<in> set (peers st). hexString (peer_id p)"
  shows "\<exists>st'. discover pid now st = Inr st'"
proof -
  from findClosestPeers_total [OF assms] obtain cs where
    f: "findClosestPeers pid (peers st) 3 = Inr cs" by blast
  from findClosestPeers_not_self [OF f] assms(2)
  have "\<forall>c \<in> set cs. hexString (peer_id c)" by blast
  from mapPeers_total [OF assms(1) this] obtain r where
    "mapPeers pid now cs (peers st) (discoveryLogs st @ [discoveringMsg pid]) = Inr r" by blast
  with f show ?thesis by (cases r) (simp add: discover_def)
qed

lemma discover_no_candidates_eq:
  assumes "candidates pid (peers st) = []"
  shows "discover pid now st =
    Inr (st\<lparr>peers := map (\<lambda>p. p\<lparr>routingTable := Map_clear (routingTable p), status := Connected\<rparr>)
                       (peers st),
            discoveryLogs := discoveryLogs st @ [discoveringMsg pid]
                @ replicate (length (peers st)) (clearedMsg pid) @ [foundMsg pid 0]\<rparr>)"
proof -
  from assms have a: "\<forall>p \<in> set (peers st). peer_id p = pid"
    by (auto simp: candidates_def filter_empty_conv)
  show ?thesis
    by (simp add: discover_def findClosestPeers_empty [OF assms] mapPeers_cleared [OF a])
qed

lemma discover_absent:
  assumes "pid \<notin> peer_id ` set (peers st)" and "discover pid now st = Inr st'"
  shows "peers st' = peers st \<and>
         discoveryLogs st' = discoveryLogs st @
           [discoveringMsg pid, foundMsg pid (min 3 (length (peers st)))]"
proof -
  from assms(2) obtain cs logs where
    f: "findClosestPeers pid (peers st) 3 = Inr cs" and
    m: "mapPeers pid now cs (peers st) (discoveryLogs st @ [discoveringMsg pid]) = Inr (peers st', logs)" and
    l: "discoveryLogs st' = logs @ [foundMsg pid (length cs)]"
    by (rule discover_Inr)
  from assms(1) have "candidates pid (peers st) = peers st"
    by (auto simp: candidates_def filter_id_conv)
  with findClosestPeers_length [OF f] have "length cs = min 3 (length (peers st))" by simp
  with m l mapPeers_absent [OF assms(1), of now cs "discoveryLogs st @ [discoveringMsg pid]"]
  show ?thesis by simp
qed

subsection \<open>Invariants of the steps\<close>

lemma createPeer_fields:
  "createPeer digest keys now = Inr p \<Longrightarrow>
     generatePeerId digest keys = Inr (peer_id p) \<and> routingTable p = DAList.empty \<and>
     status p = Discovering"
  by (auto simp: createPeer_def split: sum.splits)

lemma tick_member:
  assumes "q \<in> set (peers (tick seen st))"
  shows "\<exists>p v. p \<in> set (peers st) \<and> q = p\<lparr>lastSeen := v\<rparr>"
proof -
  from assms obtain i p where ip: "(i, p) \<in> set (enumerate 0 (peers st))"
    and q: "q = p\<lparr>lastSeen := seen i\<rparr>"
    by (auto simp: tick_def)
  from ip have "p \<in> set (peers st)" by (auto simp: in_set_enumerate_eq)
  with q show ?thesis by blast
qed

lemma discover_preserves_no_self:
  assumes "discover pid now st = Inr st'"
    and "\<forall>p \<in> set (peers st). peer_id p \<notin> set (Map_keys (routingTable p))"
    and "p' \<in> set (peers st')"
  shows "peer_id p' \<notin> set (Map_keys (routingTable p'))"
proof -
  from assms(1,3) obtain cs p l l' where
    f: "findClosestPeers pid (peers st) 3 = Inr cs" and p: "p \<in> set (peers st)" and
    u: "updatePeer pid now cs p l = Inr (p', l')"
    by (rule discover_peer)
  show ?thesis
  proof (cases "peer_id p = pid")
    case True
    from updatePeer_keys [OF u True]
    have "set (Map_keys (routingTable p')) = peer_id ` set cs" .
    moreover from findClosestPeers_not_self [OF f] have "pid \<notin> peer_id ` set cs" by auto
    moreover from updatePeer_frame [OF u] True have "peer_id p' = pid" by simp
    ultimately show ?thesis by simp
  next
    case False
    with u have "p' = p" by (simp add: updatePeer_other)
    with assms(2) p show ?thesis by simp
  qed
qed

lemma step_preserves_no_self:
  assumes "step digest e st = Inr st'"
    and "\<forall>p \<in> set (peers st). peer_id p \<notin> set (Map_keys (routingTable p))"
  shows "\<forall>p \<in> set (peers st'). peer_id p \<notin> set (Map_keys (routingTable p))"
proof (cases e)
  case Mount
  with assms show ?thesis by (auto simp: initEffect_def split: if_splits)
next
  case (InitJoin keys now)
  with assms show ?thesis
    by (auto simp: initJoin_def appendLog_def Map_keys_def Map_entries_empty
        split: sum.splits dest!: createPeer_fields)
next
  case (MakeAnotherPeer keys now)
  with assms show ?thesis
    by (auto simp: makeAnotherPeer_def Map_keys_def Map_entries_empty
        split: sum.splits dest!: createPeer_fields)
next
  case (PowerClick pid)
  with assms show ?thesis by (auto simp: removePeer_def)
next
  case (DiscoverStart pid)
  with assms show ?thesis by auto
next
  case (DiscoverDone pid now)
  show ?thesis
  proof (cases "pid \<in> set (pending st)")
    case True
    with DiscoverDone assms(1)
    have d: "discover pid now (st\<lparr>pending := remove1 pid (pending st)\<rparr>) = Inr st'" by simp
    from assms(2) have
      "\<forall>p \<in> set (peers (st\<lparr>pending := remove1 pid (pending st)\<rparr>)).
         peer_id p \<notin> set (Map_keys (routingTable p))" by simp
    from discover_preserves_no_self [OF d this] show ?thesis by blast
  next
    case False
    with DiscoverDone assms show ?thesis by simp
  qed
next
  case (Tick seen)
  show ?thesis
  proof
    fix q assume "q \<in> set (peers st')"
    with Tick assms(1) have "q \<in> set (peers (tick seen st))" by simp
    from tick_member [OF this] obtain p v where "p \<in> set (peers st)" "q = p\<lparr>lastSeen := v\<rparr>"
      by blast
    with assms(2) show "peer_id q \<notin> set (Map_keys (routingTable q))" by simp
  qed
next
  case (LatencyChange v)
  with assms show ?thesis
    by (auto simp: onLatencyChange_def initEffect_def Let_def split: if_splits)
next
  case LogEffect
  with assms show ?thesis by (auto simp: logEffect_def split: if_splits)
qed

lemma run_preserves_no_self:
  assumes "run digest evs st = Inr st'"
    and "\<forall>p \<in> set (peers st). peer_id p \<notin> set (Map_keys (routingTable p))"
  shows "\<forall>p \<in> set (peers st'). peer_id p \<notin> set (Map_keys (routingTable p))"
  using assms
proof (induction evs arbitrary: st)
  case Nil
  then show ?case by simp
next
  case (Cons e evs)
  from Cons.prems(1) obtain st1 where s: "step digest e st = Inr st1"
    and r: "run digest evs st1 = Inr st'"
    by (auto split: sum.splits)
  from Cons.IH [OF r step_preserves_no_self [OF s Cons.prems(2)] ] show ?case .
qed

subsection \<open>Frames\<close>

lemma mapPeers_other_ids:
  "mapPeers pid now cs ps logs = Inr (ps', logs') \<Longrightarrow> qid \<noteq> pid \<Longrightarrow>
     filter (\<lambda>p. peer_id p = qid) ps' = filter (\<lambda>p. peer_id p = qid) ps"
proof (induction ps arbitrary: logs ps')
  case Nil
  then show ?case by simp
next
  case (Cons p ps)
  from Cons.prems(1) obtain p' l1 qs where
    u: "updatePeer pid now cs p logs = Inr (p', l1)" and
    m: "mapPeers pid now cs ps l1 = Inr (qs, logs')" and
    e: "ps' = p' # qs"
    by (auto split: sum.splits prod.splits)
  from updatePeer_frame [OF u] have i: "peer_id p' = peer_id p" by simp
  show ?case
  proof (cases "peer_id p = pid")
    case True
    with Cons.IH [OF m Cons.prems(2)] Cons.prems(2) i e show ?thesis by simp
  next
    case False
    with u have "p' = p" by (simp add: updatePeer_other)
    with Cons.IH [OF m Cons.prems(2)] e show ?thesis by simp
  qed
qed

lemma discover_other_tables:
  assumes "discover pid now st = Inr st'" and "qid \<noteq> pid"
  shows "tablesOf qid st' = tablesOf qid st"
proof -
  from assms(1) obtain cs logs where
    m: "mapPeers pid now cs (peers st) (discoveryLogs st @ [discoveringMsg pid]) = Inr (peers st', logs)"
    by (rule discover_Inr)
  from mapPeers_other_ids [OF m assms(2)] show ?thesis by (simp add: tablesOf_def)
qed

lemma tick_tables: "tablesOf qid (tick seen st) = tablesOf qid st"
proof -
  have "map routingTable (filter (\<lambda>p. peer_id p = qid)
          (map (\<lambda>(i, p). p\<lparr>lastSeen := seen i\<rparr>) (enumerate n ps)))
        = map routingTable (filter (\<lambda>p. peer_id p = qid) ps)" for n ps
    by (induction ps arbitrary: n) simp_all
  then show ?thesis by (simp add: tablesOf_def tick_def)
qed

lemma removePeer_tables:
  "qid \<noteq> rid \<Longrightarrow> tablesOf qid (removePeer rid st) = tablesOf qid st"
  by (auto simp: tablesOf_def removePeer_def intro!: arg_cong [where f = "map routingTable"] filter_cong)

lemma tablesOf_append_peer:
  assumes "routingTable p = DAList.empty" and "peers st' = peers st @ [p]"
  shows "tablesOf qid st' = tablesOf qid st \<or>
         tablesOf qid st' = tablesOf qid st @ [DAList.empty]"
  using assms by (simp add: tablesOf_def)

lemma step_tables_exact:
  assumes "step digest e st = Inr st'"
    and "\<forall>now. e = DiscoverDone qid now \<longrightarrow> qid \<notin> set (pending st)"
  shows "tablesOf qid st' = tablesOf qid st \<or>
         tablesOf qid st' = tablesOf qid st @ [DAList.empty] \<or>
         (tablesOf qid st' = [] \<and> qid \<notin> peer_id ` set (peers st'))"
proof (cases e)
  case Mount
  with assms show ?thesis by (auto simp: initEffect_def tablesOf_def split: if_splits)
next
  case (InitJoin keys now)
  with assms(1) obtain p where c: "createPeer digest keys now = Inr p"
    and s: "peers st' = peers st @ [p]"
    by (auto simp: initJoin_def appendLog_def split: sum.splits)
  from createPeer_fields [OF c] have "routingTable p = DAList.empty" by simp
  from tablesOf_append_peer [OF this s] show ?thesis by blast
next
  case (MakeAnotherPeer keys now)
  with assms(1) obtain p where c: "createPeer digest keys now = Inr p"
    and s: "peers st' = peers st @ [p]"
    by (auto simp: makeAnotherPeer_def split: sum.splits)
  from createPeer_fields [OF c] have "routingTable p = DAList.empty" by simp
  from tablesOf_append_peer [OF this s] show ?thesis by blast
next
  case (PowerClick pid)
  show ?thesis
  proof (cases "pid = qid")
    case True
    with PowerClick assms(1) show ?thesis by (auto simp: removePeer_def tablesOf_def)
  next
    case False
    then have "qid \<noteq> pid" by simp
    from removePeer_tables [OF this, of st] PowerClick assms(1) show ?thesis by auto
  qed
next
  case (DiscoverStart pid)
  with assms show ?thesis by (auto simp: tablesOf_def)
next
  case (DiscoverDone pid now)
  show ?thesis
  proof (cases "pid \<in> set (pending st)")
    case True
    with DiscoverDone assms(2) have ne: "qid \<noteq> pid" by auto
    from True DiscoverDone assms(1)
    have d: "discover pid now (st\<lparr>pending := remove1 pid (pending st)\<rparr>) = Inr st'" by simp
    from discover_other_tables [OF d ne] show ?thesis by (simp add: tablesOf_def)
  next
    case False
    with DiscoverDone assms show ?thesis by auto
  qed
next
  case (Tick seen)
  with assms show ?thesis by (auto simp: tick_tables)
next
  case (LatencyChange v)
  with assms show ?thesis
    by (auto simp: onLatencyChange_def initEffect_def Let_def tablesOf_def split: if_splits)
next
  case LogEffect
  with assms show ?thesis by (auto simp: logEffect_def tablesOf_def split: if_splits)
qed

lemma discover_prunes_absent:
  assumes "discover qid now st = Inr st'" and "rid \<notin> peer_id ` set (peers st)"
    and "t \<in> set (tablesOf qid st')"
  shows "rid \<notin> set (Map_keys t)"
proof -
  from assms(3) obtain p' where p': "p' \<in> set (peers st')" "peer_id p' = qid"
    "t = routingTable p'"
    by (auto simp: tablesOf_def)
  from assms(1) p'(1) obtain cs p l l' where
    f: "findClosestPeers qid (peers st) 3 = Inr cs" and p: "p \<in> set (peers st)" and
    u: "updatePeer qid now cs p l = Inr (p', l')"
    by (rule discover_peer)
  from updatePeer_frame [OF u] p'(2) have "peer_id p = qid" by simp
  from updatePeer_keys [OF u this] have "set (Map_keys t) = peer_id ` set cs"
    by (simp add: p'(3))
  moreover from findClosestPeers_not_self [OF f] have "peer_id ` set cs \<subseteq> peer_id ` set (peers st)"
    by auto
  ultimately show ?thesis using assms(2) by auto
qed

subsection \<open>Size of the table\<close>

lemma discover_table_keys:
  assumes "discover pid now st = Inr st'" and "p' \<in> set (peers st')" and "peer_id p' = pid"
  obtains cs where "findClosestPeers pid (peers st) 3 = Inr cs"
    "set (Map_keys (routingTable p')) = peer_id ` set cs"
proof -
  from assms(1,2) obtain cs p l l' where
    f: "findClosestPeers pid (peers st) 3 = Inr cs" and
    u: "updatePeer pid now cs p l = Inr (p', l')"
    by (rule discover_peer)
  from updatePeer_frame [OF u] assms(3) have "peer_id p = pid" by simp
  from updatePeer_keys [OF u this] f that show ?thesis by blast
qed

lemma discover_table_size:
  assumes "discover pid now st = Inr st'" and "p' \<in> set (peers st')" and "peer_id p' = pid"
  shows "Map_size (routingTable p') \<le> 3"
    and "distinct (map peer_id (peers st)) \<Longrightarrow>
           Map_size (routingTable p') = min 3 (length (candidates pid (peers st)))"
proof -
  from assms obtain cs where f: "findClosestPeers pid (peers st) 3 = Inr cs"
    and k: "set (Map_keys (routingTable p')) = peer_id ` set cs"
    by (rule discover_table_keys)
  have l: "length cs = min 3 (length (candidates pid (peers st)))"
    by (rule findClosestPeers_length [OF f])
  have "card (peer_id ` set cs) \<le> length cs"
    by (metis card_length length_map set_map)
  with l k show "Map_size (routingTable p') \<le> 3" by (simp add: Map_size_card)
  assume "distinct (map peer_id (peers st))"
  from findClosestPeers_distinct [OF f this] have "card (peer_id ` set cs) = length cs"
    by (metis distinct_card length_map set_map)
  with l k show "Map_size (routingTable p') = min 3 (length (candidates pid (peers st)))"
    by (simp add: Map_size_card)
qed

lemma discover_distances:
  assumes "discover pid now st = Inr st'" and "p' \<in> set (peers st')" and "peer_id p' = pid"
    and "(k, v) \<in> set (Map_entries (routingTable p'))"
  shows "calculateDistance pid k = Inr (distance v)"
proof -
  from assms(1,2) obtain cs p l l' where
    u: "updatePeer pid now cs p l = Inr (p', l')"
    by (rule discover_peer)
  from updatePeer_frame [OF u] assms(3) have "peer_id p = pid" by simp
  from updatePeer_distances [OF u this assms(4)] show ?thesis .
qed

subsection \<open>The log\<close>

lemma shiftLoop_drop: "shiftLoop arr = drop (length arr - 500) arr"
proof (induction arr rule: shiftLoop.induct)
  case (1 arr)
  show ?case
  proof (cases "length arr > 500")
    case True
    then obtain x xs where a: "arr = x # xs" by (cases arr) auto
    from True have "shiftLoop arr = shiftLoop (tl arr)" by (subst shiftLoop.simps) simp
    also from "1" True have "\<dots> = drop (length (tl arr) - 500) (tl arr)" by simp
    also have "\<dots> = drop (length arr - 500) arr"
    proof -
      from True a have "length arr - 500 = Suc (length (tl arr) - 500)" by simp
      with a show ?thesis by simp
    qed
    finally show ?thesis .
  next
    case False
    then show ?thesis by (subst shiftLoop.simps) simp
  qed
qed

lemma logEffect_drop:
  "discoveryLogs (logEffect st) = drop (length (discoveryLogs st) - 500) (discoveryLogs st)"
  by (simp add: logEffect_def shiftLoop_drop)

subsection \<open>Evaluation of the examples\<close>

lemma decimal_digit: "n < 10 \<Longrightarrow> decimal n = [''0123456789'' ! n]"
  by (simp add: decimal.simps)

lemma generatePeerId_padDigest_single:
  "generatePeerId padDigest [b] = Inr (byteHex b @ ''0000000000'')"
proof -
  have t: "take 6 (take 32 ([b] @ replicate 32 0)) = [b, 0, 0, 0, 0, 0]"
    by (simp add: eval_nat_numeral)
  have "padDigest [b] = Inr (take 32 ([b] @ replicate 32 0))" by (simp add: padDigest_def)
  from generatePeerId_Inr [of padDigest "[b]" "take 32 ([b] @ replicate 32 0)", OF this]
  show ?thesis
    unfolding t by (simp add: byteHex_digits hexDigitChar_def)
qed

lemmas eval_defs =
  calculateDistance_def BigInt0x_def dropTrailingWhiteSpace_def strWhiteSpaceChar_def
  hexDigitValue_def compareFn_def findClosestPeers_def
  sortBy_def updatePeer_def discover_def Map_keys_def Map_entries_def Map_set_def
  Map_delete_def Map_clear_def Map_size_def update.rep_eq delete.rep_eq empty.rep_eq
  discoveringMsg_def clearedMsg_def removedMsg_def foundMsg_def joinedMsg_def
  decimal_digit createPeer_def initJoin_def makeAnotherPeer_def appendLog_def
  removePeer_def initEffect_def onLatencyChange_def tick_def logEffect_def initState_def
  generatePeerId_padDigest_single byteHex_digits hexDigitChar_def Let_def

subsection \<open>Rounds of the peers of the network complete\<close>

lemma createPeer_id_hex:
  assumes "createPeer digest keys now = Inr p"
  shows "hexString (peer_id p)"
proof -
  from assms obtain n where g: "generatePeerId digest keys = Inr (peer_id p)"
    and b: "BigInt0x (peer_id p) = Inr n"
    by (auto simp: createPeer_def split: sum.splits)
  from generatePeerId_lower [OF g] have "list_all (\<lambda>c. hexDigitValue c \<noteq> None) (peer_id p)"
    by (auto simp: list_all_iff dest: lowerHex_is_hex)
  with BigInt0x_Inr_nonempty [OF b] show ?thesis by (simp add: hexString_def)
qed

lemma step_preserves_hex_ids:
  assumes "step digest e st = Inr st'"
    and "\<forall>p \<in> set (peers st). hexString (peer_id p)"
  shows "\<forall>p \<in> set (peers st'). hexString (peer_id p)"
proof (cases e)
  case Mount
  with assms show ?thesis by (auto simp: initEffect_def split: if_splits)
next
  case (InitJoin keys now)
  with assms show ?thesis
    by (auto simp: initJoin_def appendLog_def split: sum.splits dest: createPeer_id_hex)
next
  case (MakeAnotherPeer keys now)
  with assms show ?thesis
    by (auto simp: makeAnotherPeer_def split: sum.splits dest: createPeer_id_hex)
next
  case (PowerClick pid)
  with assms show ?thesis by (auto simp: removePeer_def)
next
  case (DiscoverStart pid)
  with assms show ?thesis by auto
next
  case (DiscoverDone pid now)
  show ?thesis
  proof (cases "pid \<in> set (pending st)")
    case True
    with DiscoverDone assms(1)
    have d: "discover pid now (st\<lparr>pending := remove1 pid (pending st)\<rparr>) = Inr st'" by simp
    from discover_ids [OF d] have "map peer_id (peers st') = map peer_id (peers st)"
      by simp
    then have "peer_id ` set (peers st') = peer_id ` set (peers st)"
      by (metis set_map)
    with assms(2) show ?thesis by (metis imageE imageI)
  next
    case False
    with DiscoverDone assms show ?thesis by simp
  qed
next
  case (Tick seen)
  show ?thesis
  proof
    fix q assume "q \<in> set (peers st')"
    with Tick assms(1) have "q \<in> set (peers (tick seen st))" by simp
    from tick_member [OF this] obtain p v where "p \<in> set (peers st)" "q = p\<lparr>lastSeen := v\<rparr>"
      by blast
    with assms(2) show "hexString (peer_id q)" by simp
  qed
next
  case (LatencyChange v)
  with assms show ?thesis
    by (auto simp: onLatencyChange_def initEffect_def Let_def split: if_splits)
next
  case LogEffect
  with assms show ?thesis by (auto simp: logEffect_def split: if_splits)
qed

lemma run_preserves_hex_ids:
  assumes "run digest evs st = Inr st'"
    and "\<forall>p \<in> set (peers st). hexString (peer_id p)"
  shows "\<forall>p \<in> set (peers st'). hexString (peer_id p)"
  using assms
proof (induction evs arbitrary: st)
  case Nil
  then show ?case by simp
next
  case (Cons e evs)
  from Cons.prems(1) obtain st1 where s: "step digest e st = Inr st1"
    and r: "run digest evs st1 = Inr st'"
    by (auto split: sum.splits)
  from Cons.IH [OF r step_preserves_hex_ids [OF s Cons.prems(2)] ] show ?case .
qed

text \<open>
  No round of a peer of the network raises: in every state the network reaches, the round
  of any of its peers completes.
\<close>

lemma rounds_complete:
  assumes "run digest evs initState = Inr st" and "p \<in> set (peers st)"
  shows "\<exists>st'. discover (peer_id p) now st = Inr st'"
proof -
  have "\<forall>p \<in> set (peers initState). hexString (peer_id p)" by (simp add: initState_def)
  from run_preserves_hex_ids [OF assms(1) this]
  have h: "\<forall>p \<in> set (peers st). hexString (peer_id p)" .
  with assms(2) have "hexString (peer_id p)" by blast
  from discover_total [OF this h] show ?thesis .
qed

section \<open>The discovery round on the network\<close>

subsection \<open>Rounds without candidates\<close>

text \<open>
  Claim C1, as the code has it. When the candidate set of a round is empty (every peer
  of the list carries the round's id; normally that is the one peer), the round
  completes, empties the routing table of that peer, and appends to the log the entry
  "discovering closest peers...", one entry "cleared routing table - no peers found" per
  such peer, and the entry "found 0 close peers". The peer's status is then
  \<^const>\<open>Connected\<close>: the assignment of the status follows the \<^verbatim>\<open>if\<close>/\<^verbatim>\<open>else\<close> and
  is made on both branches.
\<close>

theorem discovery_without_candidates:
  assumes "candidates pid (peers st) = []"
  shows "\<exists>st'. discover pid now st = Inr st' \<and>
     map peer_id (peers st') = map peer_id (peers st) \<and>
     (\<forall>p \<in> set (peers st'). Map_entries (routingTable p) = [] \<and> status p = Connected) \<and>
     discoveryLogs st' = discoveryLogs st @ [discoveringMsg pid]
        @ replicate (length (peers st)) (clearedMsg pid) @ [foundMsg pid 0]"
  by (simp add: discover_no_candidates_eq [OF assms] Map_entries_clear comp_def)

theorem discovery_without_candidates_witness:
  "candidates ''010000000000'' (peers soloNetwork) = [] \<and>
   (\<exists>st'. discover ''010000000000'' 9 soloNetwork = Inr st' \<and>
      map peer_id (peers st') = [''010000000000''] \<and>
      map status (peers st') = [Connected] \<and>
      map (\<lambda>p. Map_entries (routingTable p)) (peers st') = [ [] ] \<and>
      discoveryLogs st' = [''Peer 010000 joined the network'',
              ''Peer 010000 discovering closest peers...'',
              ''Peer 010000 cleared routing table - no peers found'',
              ''Peer 010000 found 0 close peers''])"
proof -
  have c: "candidates ''010000000000'' (peers soloNetwork) = []"
    by (simp add: candidates_def soloNetwork_def examplePeer_def byteHex_digits hexDigitChar_def)
  from discovery_without_candidates [OF c, of 9] obtain st' where
    d: "discover ''010000000000'' 9 soloNetwork = Inr st'" and
    i: "map peer_id (peers st') = map peer_id (peers soloNetwork)" and
    a: "\<forall>p \<in> set (peers st'). Map_entries (routingTable p) = [] \<and> status p = Connected" and
    l: "discoveryLogs st' = discoveryLogs soloNetwork @ [discoveringMsg ''010000000000'']
        @ replicate (length (peers soloNetwork)) (clearedMsg ''010000000000'')
        @ [foundMsg ''010000000000'' 0]"
    by blast
  from i have i': "map peer_id (peers st') = [''010000000000'']"
    by (simp add: soloNetwork_def examplePeer_def byteHex_digits hexDigitChar_def)
  then obtain p where p: "peers st' = [p]" by auto
  with a have "map status (peers st') = [Connected]"
    "map (\<lambda>p. Map_entries (routingTable p)) (peers st') = [ [] ]" by simp_all
  moreover from l have "discoveryLogs st' = [''Peer 010000 joined the network'',
              ''Peer 010000 discovering closest peers...'',
              ''Peer 010000 cleared routing table - no peers found'',
              ''Peer 010000 found 0 close peers'']"
    by (simp add: soloNetwork_def eval_defs)
  ultimately show ?thesis using c d i' by (intro conjI exI [of _ st']) assumption+
qed

text \<open>
  Claim C1 as it was stated fails on the status, which does not stay
  \<^const>\<open>Discovering\<close>: in the network of one peer, whose candidate set is empty, the
  first round leaves the peer \<^const>\<open>Connected\<close>.
\<close>

theorem discovery_without_candidates_counterexample:
  "run padDigest [Mount, InitJoin [1] 0, DiscoverStart ''010000000000''] initState
     = Inr soloNetwork \<and>
   candidates ''010000000000'' (peers soloNetwork) = [] \<and>
   map status (peers soloNetwork) = [Discovering] \<and>
   step padDigest (DiscoverDone ''010000000000'' 9) soloNetwork =
     Inr (soloNetwork\<lparr>peers := [(examplePeer 1)\<lparr>status := Connected\<rparr>],
            discoveryLogs := [''Peer 010000 joined the network'',
              ''Peer 010000 discovering closest peers...'',
              ''Peer 010000 cleared routing table - no peers found'',
              ''Peer 010000 found 0 close peers''],
            pending := []\<rparr>) \<and>
   status ((examplePeer 1)\<lparr>status := Connected\<rparr>) \<noteq> Discovering"
  by (simp add: eval_defs soloNetwork_def examplePeer_def candidates_def)

subsection \<open>Rounds in flight across a change of the latency\<close>

text \<open>
  Claim C2, as the code has it. The program keeps no generation counter; the closure of
  a round checks nothing when its timer fires. A change of the latency empties the peer
  list and leaves the rounds in flight as they are. When such a round completes on the
  emptied list it appends "discovering closest peers..." and "found 0 close peers" to
  the log; whenever it completes in a state where no peer carries its id it changes no
  peer and appends these two entries (with the number of close peers found).
\<close>

theorem stale_round_is_applied:
  assumes "pid \<in> set (pending st)" and "v \<noteq> networkLatency st"
  shows "peers (onLatencyChange v st) = [] \<and>
     pending (onLatencyChange v st) = pending st \<and>
     discoveryLogs (onLatencyChange v st) = discoveryLogs st \<and>
     step digest (DiscoverDone pid now) (onLatencyChange v st) =
       Inr ((onLatencyChange v st)\<lparr>pending := remove1 pid (pending st),
              discoveryLogs := discoveryLogs st @ [discoveringMsg pid, foundMsg pid 0]\<rparr>) \<and>
     (\<forall>st2 st3. pid \<in> set (pending st2) \<and> pid \<notin> peer_id ` set (peers st2) \<and>
          step digest (DiscoverDone pid now) st2 = Inr st3 \<longrightarrow>
        peers st3 = peers st2 \<and>
        discoveryLogs st3 = discoveryLogs st2 @
          [discoveringMsg pid, foundMsg pid (min 3 (length (peers st2)))])"
proof -
  let ?s = "onLatencyChange v st"
  from assms(2) have r: "peers ?s = []" "pending ?s = pending st"
    "discoveryLogs ?s = discoveryLogs st"
    by (simp_all add: onLatencyChange_def initEffect_def)
  have c: "candidates pid (peers (?s\<lparr>pending := remove1 pid (pending ?s)\<rparr>)) = []"
    using r by (simp add: candidates_def)
  have "step digest (DiscoverDone pid now) ?s =
      discover pid now (?s\<lparr>pending := remove1 pid (pending ?s)\<rparr>)"
    using assms(1) r(2) by simp
  also note discover_no_candidates_eq [OF c, of now]
  also have "(?s\<lparr>pending := remove1 pid (pending ?s)\<rparr>)
       \<lparr>peers := map (\<lambda>p. p\<lparr>routingTable := Map_clear (routingTable p), status := Connected\<rparr>)
                  (peers (?s\<lparr>pending := remove1 pid (pending ?s)\<rparr>)),
         discoveryLogs := discoveryLogs (?s\<lparr>pending := remove1 pid (pending ?s)\<rparr>)
           @ [discoveringMsg pid]
           @ replicate (length (peers (?s\<lparr>pending := remove1 pid (pending ?s)\<rparr>))) (clearedMsg pid)
           @ [foundMsg pid 0]\<rparr>
     = ?s\<lparr>pending := remove1 pid (pending st),
              discoveryLogs := discoveryLogs st @ [discoveringMsg pid, foundMsg pid 0]\<rparr>"
    by (rule state.equality) (simp_all add: r)
  finally have s: "step digest (DiscoverDone pid now) ?s =
       Inr (?s\<lparr>pending := remove1 pid (pending st),
              discoveryLogs := discoveryLogs st @ [discoveringMsg pid, foundMsg pid 0]\<rparr>)" .
  have g: "peers st3 = peers st2 \<and>
        discoveryLogs st3 = discoveryLogs st2 @
          [discoveringMsg pid, foundMsg pid (min 3 (length (peers st2)))]"
    if "pid \<in> set (pending st2)" "pid \<notin> peer_id ` set (peers st2)"
      "step digest (DiscoverDone pid now) st2 = Inr st3" for st2 st3
  proof -
    from that have d: "discover pid now (st2\<lparr>pending := remove1 pid (pending st2)\<rparr>) = Inr st3"
      by simp
    from that(2) have "pid \<notin> peer_id ` set (peers (st2\<lparr>pending := remove1 pid (pending st2)\<rparr>))"
      by simp
    from discover_absent [OF this d] show ?thesis by simp
  qed
  from r s g show ?thesis by blast
qed

theorem stale_round_is_applied_witness:
  "''010000000000'' \<in> set (pending soloNetwork) \<and> 300 \<noteq> networkLatency soloNetwork \<and>
   peers (onLatencyChange 300 soloNetwork) = [] \<and>
   step padDigest (DiscoverDone ''010000000000'' 9) (onLatencyChange 300 soloNetwork) =
     Inr ((onLatencyChange 300 soloNetwork)\<lparr>pending := [],
        discoveryLogs := [''Peer 010000 joined the network'',
              ''Peer 010000 discovering closest peers...'',
              ''Peer 010000 found 0 close peers'']\<rparr>)"
proof -
  have a: "''010000000000'' \<in> set (pending soloNetwork)" by (simp add: soloNetwork_def)
  have b: "300 \<noteq> networkLatency soloNetwork" by (simp add: soloNetwork_def)
  have e: "remove1 ''010000000000'' (pending soloNetwork) = []"
    "discoveryLogs soloNetwork @ [discoveringMsg ''010000000000'', foundMsg ''010000000000'' 0]
      = [''Peer 010000 joined the network'',
              ''Peer 010000 discovering closest peers...'',
              ''Peer 010000 found 0 close peers'']"
    by (simp_all add: soloNetwork_def eval_defs)
  from stale_round_is_applied [OF a b, of padDigest 9] a b show ?thesis
    unfolding e by blast
qed

text \<open>
  Claim C2 as it was stated fails on the log: a round started before the latency was
  changed does append its entries when it completes afterwards.
\<close>

theorem stale_round_counterexample:
  "run padDigest [Mount, InitJoin [1] 0, DiscoverStart ''010000000000'', LatencyChange 300]
     initState = Inr staleNetwork \<and>
   discoveryLogs staleNetwork = [''Peer 010000 joined the network''] \<and>
   step padDigest (DiscoverDone ''010000000000'' 9) staleNetwork =
     Inr (staleNetwork\<lparr>discoveryLogs := [''Peer 010000 joined the network'',
              ''Peer 010000 discovering closest peers...'',
              ''Peer 010000 found 0 close peers''],
            pending := []\<rparr>)"
  by (simp add: eval_defs staleNetwork_def)

subsection \<open>Size and content of the routing table\<close>

lemma fourPeers_ids:
  "map peer_id (peers fourPeers) =
     [''010000000000'', ''020000000000'', ''030000000000'', ''040000000000'']"
  by (simp add: fourPeers_def examplePeer_def byteHex_digits hexDigitChar_def)

lemma fourPeers_round:
  "map_sum id (\<lambda>st'. map (\<lambda>p. (peer_id p, Map_entries (routingTable p))) (peers st'))
     (discover ''010000000000'' 9 fourPeers) =
   Inr [(''010000000000'',
          [(''030000000000'', \<lparr>distance = 2199023255552, entryLastSeen = 9\<rparr>),
           (''020000000000'', \<lparr>distance = 3298534883328, entryLastSeen = 9\<rparr>),
           (''040000000000'', \<lparr>distance = 5497558138880, entryLastSeen = 9\<rparr>)]),
        (''020000000000'', []), (''030000000000'', []), (''040000000000'', [])]"
  by (simp add: eval_defs fourPeers_def examplePeer_def)

text \<open>
  Claim C3. After a completed round the routing table of the peer the round was run for
  has at most 3 entries; when the ids of the peers are pairwise different (the data
  model's uniqueness of ids) and at least 3 candidates exist it has exactly 3 entries,
  and in general as many as there are candidates, up to 3.
\<close>

theorem routing_table_size:
  assumes "discover pid now st = Inr st'" and "p \<in> set (peers st')" and "peer_id p = pid"
  shows "Map_size (routingTable p) \<le> 3 \<and>
     (3 \<le> length (candidates pid (peers st)) \<and> distinct (map peer_id (peers st))
        \<longrightarrow> Map_size (routingTable p) = 3) \<and>
     (distinct (map peer_id (peers st))
        \<longrightarrow> Map_size (routingTable p) = min 3 (length (candidates pid (peers st))))"
  using discover_table_size [OF assms] by auto

theorem routing_table_size_witness:
  "\<exists>st' p. discover ''010000000000'' 9 fourPeers = Inr st' \<and> p \<in> set (peers st') \<and>
     peer_id p = ''010000000000'' \<and>
     3 \<le> length (candidates ''010000000000'' (peers fourPeers)) \<and>
     distinct (map peer_id (peers fourPeers)) \<and>
     Map_size (routingTable p) = 3"
proof -
  from fourPeers_round obtain st' where
    d: "discover ''010000000000'' 9 fourPeers = Inr st'"
    by (cases "discover ''010000000000'' 9 fourPeers") auto
  from discover_ids [OF d] fourPeers_ids obtain p ps where
    p: "peers st' = p # ps" "peer_id p = ''010000000000''"
    by (cases "peers st'") auto
  then have m: "p \<in> set (peers st')" by simp
  have c: "3 \<le> length (candidates ''010000000000'' (peers fourPeers))"
    by (simp add: candidates_def fourPeers_def examplePeer_def byteHex_digits hexDigitChar_def)
  have u: "distinct (map peer_id (peers fourPeers))"
    unfolding fourPeers_ids by simp
  from routing_table_size [OF d m p(2)] c u have "Map_size (routingTable p) = 3" by blast
  with d m p(2) c u show ?thesis by blast
qed

text \<open>
  Claim C10. After a completed round every entry \<open>(k, v)\<close> of the routing table of the peer
  the round was run for stores the distance between the owner's id and \<open>k\<close>:
  \<open>distance v\<close> is what \<^const>\<open>calculateDistance\<close> yields for the two ids.
\<close>

theorem stored_distance_consistent:
  assumes "discover pid now st = Inr st'" and "p \<in> set (peers st')" and "peer_id p = pid"
    and "(k, v) \<in> set (Map_entries (routingTable p))"
  shows "calculateDistance pid k = Inr (distance v)"
  using assms by (rule discover_distances)

theorem stored_distance_consistent_witness:
  "\<exists>st' p v. discover ''010000000000'' 9 fourPeers = Inr st' \<and> p \<in> set (peers st') \<and>
     peer_id p = ''010000000000'' \<and>
     candidates ''010000000000'' (peers fourPeers) \<noteq> [] \<and>
     (''030000000000'', v) \<in> set (Map_entries (routingTable p)) \<and>
     distance v = 2199023255552 \<and>
     calculateDistance ''010000000000'' ''030000000000'' = Inr (distance v)"
proof -
  let ?v = "\<lparr>distance = 2199023255552, entryLastSeen = 9\<rparr>"
  from fourPeers_round obtain st' where
    d: "discover ''010000000000'' 9 fourPeers = Inr st'" and
    e: "map (\<lambda>p. (peer_id p, Map_entries (routingTable p))) (peers st') =
      [(''010000000000'',
          [(''030000000000'', ?v),
           (''020000000000'', \<lparr>distance = 3298534883328, entryLastSeen = 9\<rparr>),
           (''040000000000'', \<lparr>distance = 5497558138880, entryLastSeen = 9\<rparr>)]),
        (''020000000000'', []), (''030000000000'', []), (''040000000000'', [])]"
    by (cases "discover ''010000000000'' 9 fourPeers") auto
  from e obtain p ps where p: "peers st' = p # ps" "peer_id p = ''010000000000''"
    "(''030000000000'', ?v) \<in> set (Map_entries (routingTable p))"
    by (cases "peers st'") auto
  then have m: "p \<in> set (peers st')" by simp
  have c: "candidates ''010000000000'' (peers fourPeers) \<noteq> []"
    by (simp add: candidates_def fourPeers_def examplePeer_def byteHex_digits hexDigitChar_def)
  from stored_distance_consistent [OF d m p(2) p(3)]
  have "calculateDistance ''010000000000'' ''030000000000'' = Inr (distance ?v)" .
  with d m p c show ?thesis by (intro exI [of _ st'] exI [of _ p] exI [of _ ?v]) simp
qed

subsection \<open>No peer routes to itself\<close>

lemma example_run:
  "map_sum id (\<lambda>st. map (\<lambda>p. (peer_id p, Map_keys (routingTable p))) (peers st))
     (run padDigest
        [Mount, InitJoin [1] 0, InitJoin [2] 0, InitJoin [3] 0, InitJoin [4] 0,
         MakeAnotherPeer [5] 1, Tick (\<lambda>i. 2), DiscoverDone ''010000000000'' 9,
         PowerClick ''030000000000'', DiscoverDone ''020000000000'' 10, LogEffect]
        initState) =
   Inr [(''010000000000'', [''030000000000'', ''020000000000'', ''050000000000'']),
        (''020000000000'', [''010000000000'', ''040000000000'', ''050000000000'']),
        (''040000000000'', []), (''050000000000'', [])]"
  by (simp add: eval_defs)

text \<open>
  Claim C5. In every state the network reaches from its initial state, by any sequence of
  events (mounting, joins, added peers, removals, started and completed rounds, ticks,
  changes of the latency, the log effect) and for any digest function, no peer's routing
  table has the peer's own id as a key.
\<close>

theorem routing_table_never_contains_self:
  assumes "run digest evs initState = Inr st" and "p \<in> set (peers st)"
  shows "peer_id p \<notin> set (Map_keys (routingTable p))"
proof -
  have "\<forall>p \<in> set (peers initState). peer_id p \<notin> set (Map_keys (routingTable p))"
    by (simp add: initState_def)
  from run_preserves_no_self [OF assms(1) this] assms(2) show ?thesis by blast
qed

theorem routing_table_never_contains_self_witness:
  "\<exists>st p. run padDigest
        [Mount, InitJoin [1] 0, InitJoin [2] 0, InitJoin [3] 0, InitJoin [4] 0,
         MakeAnotherPeer [5] 1, Tick (\<lambda>i. 2), DiscoverDone ''010000000000'' 9,
         PowerClick ''030000000000'', DiscoverDone ''020000000000'' 10, LogEffect]
        initState = Inr st \<and>
     p \<in> set (peers st) \<and> peer_id p = ''010000000000'' \<and>
     Map_keys (routingTable p) = [''030000000000'', ''020000000000'', ''050000000000''] \<and>
     peer_id p \<notin> set (Map_keys (routingTable p))"
proof -
  let ?evs = "[Mount, InitJoin [1] 0, InitJoin [2] 0, InitJoin [3] 0, InitJoin [4] 0,
         MakeAnotherPeer [5] 1, Tick (\<lambda>i. 2), DiscoverDone ''010000000000'' 9,
         PowerClick ''030000000000'', DiscoverDone ''020000000000'' 10, LogEffect]"
  from example_run obtain st where
    r: "run padDigest ?evs initState = Inr st" and
    e: "map (\<lambda>p. (peer_id p, Map_keys (routingTable p))) (peers st) =
        [(''010000000000'', [''030000000000'', ''020000000000'', ''050000000000'']),
        (''020000000000'', [''010000000000'', ''040000000000'', ''050000000000'']),
        (''040000000000'', []), (''050000000000'', [])]"
    by (cases "run padDigest ?evs initState") auto
  from e obtain p ps where p: "peers st = p # ps" "peer_id p = ''010000000000''"
    "Map_keys (routingTable p) = [''030000000000'', ''020000000000'', ''050000000000'']"
    by (cases "peers st") auto
  then have m: "p \<in> set (peers st)" by simp
  from routing_table_never_contains_self [OF r m] r m p(2,3)
  show ?thesis by (intro exI [of _ st] exI [of _ p]) simp
qed

subsection \<open>Removal of a peer\<close>

lemma threePeers_tables:
  "map Map_keys (tablesOf ''010000000000'' threePeers) = [ [''030000000000'', ''020000000000''] ]"
  by (simp add: tablesOf_def threePeers_def examplePeer_def eval_defs)

lemma threePeers_round_after_removal:
  "map_sum id (\<lambda>s. map Map_keys (tablesOf ''010000000000'' s))
     (discover ''010000000000'' 11 (removePeer ''030000000000'' threePeers))
   = Inr [ [''020000000000''] ]"
  by (simp add: tablesOf_def threePeers_def examplePeer_def eval_defs)

text \<open>
  Claim C6. Removing the peer \<open>rid\<close> leaves the routing tables of every other peer as they
  are, entries for \<open>rid\<close> included. No event other than the completion of a round in
  flight for \<open>qid\<close> itself changes a table of a peer \<open>qid\<close>: after any other step the
  tables of the peers with that id are the same as before, or the same followed by the
  empty table of a peer just created with that id, or there are none because no peer
  carries the id any more (the peer was removed, or the list was emptied). A completed
  round of \<open>qid\<close> in a state where no peer carries \<open>rid\<close>, as after the removal, leaves
  no entry for \<open>rid\<close> in the table.
\<close>

theorem removal_is_lazy:
  assumes "qid \<noteq> rid"
  shows "tablesOf qid (removePeer rid st) = tablesOf qid st \<and>
     rid \<notin> peer_id ` set (peers (removePeer rid st)) \<and>
     (\<forall>e s s'. step digest e s = Inr s' \<and>
          (\<forall>now. e = DiscoverDone qid now \<longrightarrow> qid \<notin> set (pending s)) \<longrightarrow>
        tablesOf qid s' = tablesOf qid s \<or>
        tablesOf qid s' = tablesOf qid s @ [DAList.empty] \<or>
        (tablesOf qid s' = [] \<and> qid \<notin> peer_id ` set (peers s'))) \<and>
     (\<forall>now s s'. rid \<notin> peer_id ` set (peers s) \<and> discover qid now s = Inr s' \<longrightarrow>
        (\<forall>t \<in> set (tablesOf qid s'). rid \<notin> set (Map_keys t)))"
proof (intro conjI allI impI)
  show "tablesOf qid (removePeer rid st) = tablesOf qid st"
    by (rule removePeer_tables [OF assms])
  show "rid \<notin> peer_id ` set (peers (removePeer rid st))"
    by (auto simp: removePeer_def)
next
  fix e s s'
  assume "step digest e s = Inr s' \<and>
          (\<forall>now. e = DiscoverDone qid now \<longrightarrow> qid \<notin> set (pending s))"
  then show "tablesOf qid s' = tablesOf qid s \<or>
        tablesOf qid s' = tablesOf qid s @ [DAList.empty] \<or>
        (tablesOf qid s' = [] \<and> qid \<notin> peer_id ` set (peers s'))"
    using step_tables_exact [of digest e s s' qid] by blast
next
  fix now s s'
  assume "rid \<notin> peer_id ` set (peers s) \<and> discover qid now s = Inr s'"
  then show "\<forall>t \<in> set (tablesOf qid s'). rid \<notin> set (Map_keys t)"
    using discover_prunes_absent [of qid now s s' rid] by blast
qed

theorem removal_is_lazy_witness:
  "''010000000000'' \<noteq> ''030000000000'' \<and>
   map Map_keys (tablesOf ''010000000000'' (removePeer ''030000000000'' threePeers))
     = [ [''030000000000'', ''020000000000''] ] \<and>
   ''030000000000'' \<notin> peer_id ` set (peers (removePeer ''030000000000'' threePeers)) \<and>
   step padDigest (Tick (\<lambda>i. 5)) (removePeer ''030000000000'' threePeers)
     = Inr (tick (\<lambda>i. 5) (removePeer ''030000000000'' threePeers)) \<and>
   map Map_keys (tablesOf ''010000000000''
       (tick (\<lambda>i. 5) (removePeer ''030000000000'' threePeers)))
     = [ [''030000000000'', ''020000000000''] ] \<and>
   (\<exists>s'. discover ''010000000000'' 11 (removePeer ''030000000000'' threePeers) = Inr s' \<and>
      map Map_keys (tablesOf ''010000000000'' s') = [ [''020000000000''] ] \<and>
      list_all (\<lambda>t. ''030000000000'' \<notin> set (Map_keys t)) (tablesOf ''010000000000'' s'))"
proof -
  let ?s = "removePeer ''030000000000'' threePeers"
  let ?t = "tick (\<lambda>i. 5) ?s"
  have n: "''010000000000'' \<noteq> ''030000000000''" by simp
  note r = removal_is_lazy [OF n, of threePeers padDigest]
  from r have a: "tablesOf ''010000000000'' ?s = tablesOf ''010000000000'' threePeers"
    by blast
  from r have b: "''030000000000'' \<notin> peer_id ` set (peers ?s)"
    by blast
  have st: "step padDigest (Tick (\<lambda>i. 5)) ?s = Inr ?t" by simp
  have nd: "\<forall>now. Tick (\<lambda>i. 5) = DiscoverDone ''010000000000'' now \<longrightarrow>
      ''010000000000'' \<notin> set (pending ?s)" by simp
  from r st nd have
    "tablesOf ''010000000000'' ?t = tablesOf ''010000000000'' ?s \<or>
     tablesOf ''010000000000'' ?t = tablesOf ''010000000000'' ?s @ [DAList.empty] \<or>
     (tablesOf ''010000000000'' ?t = [] \<and> ''010000000000'' \<notin> peer_id ` set (peers ?t))"
    by blast
  moreover have "length (tablesOf ''010000000000'' ?t) = 1"
    by (simp add: tablesOf_def tick_def removePeer_def threePeers_def examplePeer_def
        byteHex_digits hexDigitChar_def)
  moreover have "length (tablesOf ''010000000000'' ?s) = 1"
  proof -
    have "length (map Map_keys (tablesOf ''010000000000'' threePeers)) = 1"
      by (simp only: threePeers_tables) simp
    then show ?thesis by (simp add: a)
  qed
  ultimately have c: "tablesOf ''010000000000'' ?t = tablesOf ''010000000000'' ?s"
    by (elim disjE) simp_all
  from threePeers_round_after_removal obtain s' where
    d: "discover ''010000000000'' 11 ?s = Inr s'" and
    k: "map Map_keys (tablesOf ''010000000000'' s') = [ [''020000000000''] ]"
    by (cases "discover ''010000000000'' 11 ?s") auto
  from r b d have "\<forall>t \<in> set (tablesOf ''010000000000'' s'). ''030000000000'' \<notin> set (Map_keys t)"
    by blast
  then have l: "list_all (\<lambda>t. ''030000000000'' \<notin> set (Map_keys t)) (tablesOf ''010000000000'' s')"
    by (simp add: list_all_iff)
  from n a b st c d k l threePeers_tables show ?thesis
    by (intro conjI exI [of _ s']) simp_all
qed

subsection \<open>The bound of the log\<close>

text \<open>
  Claim C4, as the code has it. An append does not trim: it makes the log one entry
  longer, also beyond 500. The trimming is the effect that runs after the log has
  changed: after it the log has at most 500 entries, which are the newest ones in their
  order (the oldest are shifted out first), and a log of at most 500 entries is left as
  it is.
\<close>

theorem log_effect_bound:
  "length (discoveryLogs (logEffect st)) \<le> 500 \<and>
   discoveryLogs (logEffect st) = drop (length (discoveryLogs st) - 500) (discoveryLogs st) \<and>
   discoveryLogs (logEffect (appendLog msg st)) =
     drop (Suc (length (discoveryLogs st)) - 500) (discoveryLogs st @ [msg]) \<and>
   (length (discoveryLogs st) \<le> 500 \<longrightarrow> logEffect st = st) \<and>
   length (discoveryLogs (appendLog msg st)) = Suc (length (discoveryLogs st))"
  by (simp add: logEffect_drop) (simp add: logEffect_def appendLog_def)

theorem log_effect_bound_witness:
  "length (discoveryLogs fullLog) \<le> 500 \<and> logEffect fullLog = fullLog \<and>
   discoveryLogs (logEffect (appendLog ''Peer 010000 joined the network'' fullLog)) =
     replicate 499 ''Peer 010000 found 0 close peers'' @ [''Peer 010000 joined the network'']"
proof -
  have l: "length (discoveryLogs fullLog) \<le> 500" by (simp add: fullLog_def)
  have d: "drop (Suc (length (discoveryLogs fullLog)) - 500)
             (discoveryLogs fullLog @ [''Peer 010000 joined the network''])
           = replicate 499 ''Peer 010000 found 0 close peers''
               @ [''Peer 010000 joined the network'']"
    by (simp add: fullLog_def)
  from log_effect_bound [of fullLog "''Peer 010000 joined the network''"] l
  show ?thesis unfolding d by blast
qed

text \<open>
  Claim C4 as it was stated fails between an append and the effect, where the log
  exceeds the bound: a join that is logged on a log of 500 entries leaves 501.
\<close>

theorem log_bound_counterexample:
  "length (discoveryLogs fullLog) = 500 \<and>
   step padDigest (InitJoin [1] 0) fullLog =
     Inr (fullLog\<lparr>peers := [examplePeer 1],
            discoveryLogs := replicate 500 ''Peer 010000 found 0 close peers''
               @ [''Peer 010000 joined the network'']\<rparr>) \<and>
   length (replicate 500 ''Peer 010000 found 0 close peers''
               @ [''Peer 010000 joined the network'']) = 501"
  by (simp add: fullLog_def examplePeer_def eval_defs)

end
